theory Spec2Isabelle
  imports Complex_Main "HOL-Library.Word"
begin

unbundle bit_operations_syntax

section \<open>Machine data of the GPU tree neighbor list\<close>

text \<open>
  The kernels of \<^verbatim>\<open>NeighborListGPUTree.cu\<close> work on 32-bit \<^verbatim>\<open>unsigned int\<close> and
  \<^verbatim>\<open>int\<close> values. Both are modelled by their bit pattern, a \<open>32 word\<close>: addition,
  subtraction, multiplication and shifts wrap around, the conversion between \<^verbatim>\<open>int\<close> and
  \<^verbatim>\<open>unsigned int\<close> is the identity on bit patterns, and a comparison in which one operand
  is unsigned is the unsigned comparison of the words, as C converts the signed operand.
  Values that the code only keeps in \<^verbatim>\<open>int\<close> variables and that never leave a small range
  (a count of leading zeros, \<open>-1\<close>) are mathematical integers. Device arrays that are only
  read are lists, indexed by \<open>unat\<close>.
\<close>

type_synonym u32 = "32 word"

subsection \<open>The intrinsic \<^verbatim>\<open>__clz\<close>\<close>

text \<open>
  \<^verbatim>\<open>__clz\<close> is the CUDA intrinsic that counts the consecutive zero bits of a 32-bit value,
  starting at the most significant bit (bit 31); it returns 32 for the value 0.
  \<open>clz_from n x\<close> counts the zero bits at positions \<open>n - 1\<close>, \<open>n - 2\<close>, ... downwards.
\<close>

fun clz_from :: "nat \<Rightarrow> u32 \<Rightarrow> nat" where
  "clz_from 0 x = 0"
| "clz_from (Suc n) x = (if bit x n then 0 else Suc (clz_from n x))"

definition clz :: "u32 \<Rightarrow> int" where
  "clz x = int (clz_from 32 x)"

text \<open>
  The number of leading bits that two 32-bit values have in common, as the specification
  words it: the length of the longest run of positions, from bit 31 downwards, on which the
  two values agree.
\<close>

fun common_from :: "nat \<Rightarrow> u32 \<Rightarrow> u32 \<Rightarrow> nat" where
  "common_from 0 a b = 0"
| "common_from (Suc n) a b = (if bit a n = bit b n then Suc (common_from n a b) else 0)"

definition leading_common_bits :: "u32 \<Rightarrow> u32 \<Rightarrow> int" where
  "leading_common_bits a b = int (common_from 32 a b)"

section \<open>Morton encoder: bit expansion\<close>

text \<open>\<^verbatim>\<open>expandBits\<close>: four rounds of multiply and mask on an \<^verbatim>\<open>unsigned int\<close>.\<close>

definition expandBits :: "u32 \<Rightarrow> u32" where
  "expandBits v0 =
    (let v1 = (v0 * 0x00010001) AND 0xFF0000FF;
         v2 = (v1 * 0x00000101) AND 0x0F00F00F;
         v3 = (v2 * 0x00000011) AND 0xC30C30C3;
         v4 = (v3 * 0x00000005) AND 0x49249249
     in v4)"

text \<open>
  The last three statements of the encoder before the store:
  \<^verbatim>\<open>morton_code = ii * 4 + jj * 2 + kk\<close> with \<^verbatim>\<open>ii = expandBits(ib)\<close> and so on.
\<close>

definition morton_code :: "u32 \<Rightarrow> u32 \<Rightarrow> u32 \<Rightarrow> u32" where
  "morton_code ib jb kb =
    (let ii = expandBits ib; jj = expandBits jb; kk = expandBits kb
     in ii * 4 + jj * 2 + kk)"

text \<open>
  The same rounds written with shifts instead of multiplications, on the low ten bits of the
  argument; an auxiliary form used to read the result bit by bit.
\<close>

definition expand_shifts :: "u32 \<Rightarrow> u32" where
  "expand_shifts v0 =
    (let v = v0 AND 0x3FF;
         v1 = (v OR push_bit 16 v) AND 0xFF0000FF;
         v2 = (v1 OR push_bit 8 v1) AND 0x0F00F00F;
         v3 = (v2 OR push_bit 4 v2) AND 0xC30C30C3;
         v4 = (v3 OR push_bit 2 v3) AND 0x49249249
     in v4)"

section \<open>Hierarchy generator: longest common prefix\<close>

text \<open>
  \<^verbatim>\<open>delta\<close>: the parameters \<^verbatim>\<open>min_idx\<close> and \<^verbatim>\<open>max_idx\<close> are \<^verbatim>\<open>int\<close>, the
  index \<^verbatim>\<open>j\<close> is \<^verbatim>\<open>unsigned int\<close>, so both range tests are unsigned comparisons.
\<close>

definition delta :: "u32 list \<Rightarrow> u32 \<Rightarrow> u32 \<Rightarrow> u32 \<Rightarrow> u32 \<Rightarrow> int" where
  "delta d_morton_codes i j min_idx max_idx =
    (if j > max_idx \<or> j < min_idx then - 1
     else
       (let first_code = d_morton_codes ! unat i;
            last_code = d_morton_codes ! unat j
        in if first_code = last_code then clz (i XOR j)
           else clz (first_code XOR last_code)))"

section \<open>Hierarchy generator: split finding\<close>

text \<open>
  \<^verbatim>\<open>findSplit\<close>. The \<^verbatim>\<open>do ... while (step > 1)\<close> loop is the function
  \<open>findSplit_loop\<close>: one call is one execution of the loop body, with \<open>step0\<close> the value of
  \<^verbatim>\<open>step\<close> on entry. All arithmetic is that of \<^verbatim>\<open>unsigned int\<close>. The loop ends for every
  input, because the halved step is smaller than the step whenever it exceeds 1.
\<close>

lemma unat_shiftr1: "unat (drop_bit 1 (x :: u32)) = unat x div 2"
  by (simp add: drop_bit_eq_div unat_div)

lemma findSplit_step_decreases:
  fixes step :: u32
  assumes "1 < drop_bit 1 (step + 1)"
  shows "unat (drop_bit 1 (step + 1)) < unat step"
proof -
  have "unat (drop_bit 1 (step + 1)) = unat (step + 1) div 2"
    by (rule unat_shiftr1)
  moreover have "1 < unat (drop_bit 1 (step + 1))"
    using assms by (simp add: word_less_nat_alt)
  moreover have "unat (step + 1) \<le> unat step + 1"
    by (simp add: unat_word_ariths) 
  ultimately show ?thesis by linarith
qed

function findSplit_loop :: "u32 list \<Rightarrow> u32 \<Rightarrow> int \<Rightarrow> u32 \<Rightarrow> u32 \<Rightarrow> u32 \<Rightarrow> u32" where
  "findSplit_loop d_morton_codes first_code common_prefix last_idx split step0 =
    (let step = drop_bit 1 (step0 + 1);
         new_split = split + step;
         split' =
           (if new_split < last_idx then
              (let split_code = d_morton_codes ! unat new_split;
                   split_prefix = clz (first_code XOR split_code)
               in if split_prefix > common_prefix then new_split else split)
            else split)
     in if step > 1 then findSplit_loop d_morton_codes first_code common_prefix last_idx split' step
        else split')"
  by pat_completeness auto
termination
  by (relation "measure (\<lambda>(c, fc, cp, l, s, step). unat step)")
    (use findSplit_step_decreases in auto)

declare findSplit_loop.simps [simp del]

definition findSplit :: "u32 list \<Rightarrow> u32 \<Rightarrow> u32 \<Rightarrow> u32" where
  "findSplit d_morton_codes first last_idx =
    (let first_code = d_morton_codes ! unat first;
         last_code = d_morton_codes ! unat last_idx
     in if first_code = last_code then drop_bit 1 (first + last_idx)
        else
          (let common_prefix = clz (first_code XOR last_code)
           in findSplit_loop d_morton_codes first_code common_prefix last_idx first (last_idx - first)))"

section \<open>Tree traverser\<close>

text \<open>
  \<^verbatim>\<open>gpu_nlist_traverse_tree_kernel\<close>, one thread. A \<^verbatim>\<open>Scalar\<close> is the real number that a
  floating-point value denotes. Comparisons are exact; every addition, subtraction and
  multiplication of the kernel is the exact operation followed by the rounding \<open>fl\<close> of the
  \<^verbatim>\<open>Scalar\<close> format (single or double precision, by the build). The rounding is a field of
  the arguments and nothing is assumed about it. The fourth component of a \<^verbatim>\<open>Scalar4\<close> and
  the second of a \<^verbatim>\<open>Scalar2\<close> are only read through \<^verbatim>\<open>__scalar_as_int\<close>, so they are kept as
  the 32-bit pattern. Device arrays are functions from the element offset; the arrays the
  kernel writes are the fields of \<open>traverse_mem\<close>. \<^verbatim>\<open>Index2D\<close> and \<^verbatim>\<open>dot\<close> are declared in
  headers that are not part of the sources: they are the fields \<open>typpair_idx\<close> and \<open>dot\<close> of
  the arguments.
\<close>

type_synonym Scalar = real

record Scalar2 =
  x2 :: Scalar
  y2 :: u32

record Scalar3 =
  x3 :: Scalar
  y3 :: Scalar
  z3 :: Scalar

record Scalar4 =
  x4 :: Scalar
  y4 :: Scalar
  z4 :: Scalar
  w4 :: u32

record AABBTreeGPU =
  num_nodes :: u32
  node_head :: u32

record traverse_args =
  d_Nmax :: "nat \<Rightarrow> u32"
  d_head_list :: "nat \<Rightarrow> u32"
  d_pos :: "nat \<Rightarrow> Scalar4"
  d_body :: "nat \<Rightarrow> u32"
  N :: u32
  d_aabb_trees :: "nat \<Rightarrow> AABBTreeGPU"
  d_aabb_node_bounds :: "nat \<Rightarrow> Scalar4"
  d_aabb_node_head_idx :: "nat \<Rightarrow> u32"
  d_aabb_leaf_particles :: "nat \<Rightarrow> u32"
  d_leaf_xyzf :: "nat \<Rightarrow> Scalar4"
  d_leaf_db :: "nat \<Rightarrow> Scalar2"
  d_image_list :: "nat \<Rightarrow> Scalar3"
  nimages :: u32
  d_r_cut :: "nat \<Rightarrow> Scalar"
  r_buff :: Scalar
  ntypes :: u32
  filter_body :: bool
  typpair_idx :: "u32 \<Rightarrow> u32 \<Rightarrow> u32"
  fl :: "Scalar \<Rightarrow> Scalar"
  dot :: "Scalar3 \<Rightarrow> Scalar3 \<Rightarrow> Scalar"

record traverse_mem =
  d_nlist :: "nat \<Rightarrow> u32"
  d_n_neigh :: "nat \<Rightarrow> u32"
  d_last_updated_pos :: "nat \<Rightarrow> Scalar4"
  d_conditions :: "nat \<Rightarrow> u32"

record thread_regs =
  my_pidx :: u32
  postype_i :: Scalar4
  type_i :: u32
  body_i :: u32
  nlist_head_i :: u32

type_synonym nlist_state = "(nat \<Rightarrow> u32) \<times> u32"

text \<open>
  Lines 782 to 785: the exclusion test of a candidate \<open>j\<close> found in a leaf. The test does not
  mention the periodic image.
\<close>

definition candidate_excluded :: "bool \<Rightarrow> u32 \<Rightarrow> u32 \<Rightarrow> u32 \<Rightarrow> u32 \<Rightarrow> bool" where
  "candidate_excluded filter_body_flag my_pidx_v body_i_v j body_j =
    (let excluded = (my_pidx_v = j)
     in if filter_body_flag \<and> body_i_v \<noteq> 0xffffffff then excluded \<or> (body_i_v = body_j)
        else excluded)"

text \<open>
  Lines 795 to 799: the slot is written only below the capacity, the count always grows.
\<close>

definition record_neighbor :: "u32 \<Rightarrow> u32 \<Rightarrow> u32 \<Rightarrow> nlist_state \<Rightarrow> nlist_state" where
  "record_neighbor Nmax_i head_i j st =
    (case st of (nl, n_neigh_i) \<Rightarrow>
      ((if n_neigh_i < Nmax_i then nl(unat (head_i + n_neigh_i) := j) else nl), n_neigh_i + 1))"

definition visit_candidate ::
  "bool \<Rightarrow> thread_regs \<Rightarrow> u32 \<Rightarrow> Scalar \<Rightarrow> Scalar \<Rightarrow> u32 \<Rightarrow> u32 \<Rightarrow> nlist_state \<Rightarrow> nlist_state" where
  "visit_candidate filter_body_flag regs Nmax_i r_cutsq_i dr2 j body_j st =
    (if \<not> candidate_excluded filter_body_flag (my_pidx regs) (body_i regs) j body_j then
       (if dr2 \<le> r_cutsq_i then record_neighbor Nmax_i (nlist_head_i regs) j st else st)
     else st)"

text \<open>
  Lines 790 and 791: \<^verbatim>\<open>drij = pos_j - pos_i_image\<close>, componentwise and rounded, and
  \<^verbatim>\<open>dr2 = dot(drij, drij)\<close>.
\<close>

definition candidate_dr2 :: "traverse_args \<Rightarrow> Scalar3 \<Rightarrow> Scalar4 \<Rightarrow> Scalar" where
  "candidate_dr2 args pos_i_image cur_xyzf =
    (let drij = \<lparr>x3 = fl args (x4 cur_xyzf - x3 pos_i_image),
                  y3 = fl args (y4 cur_xyzf - y3 pos_i_image),
                  z3 = fl args (z4 cur_xyzf - z3 pos_i_image)\<rparr>
     in dot args drij drij)"

definition visit_particle ::
  "traverse_args \<Rightarrow> thread_regs \<Rightarrow> Scalar \<Rightarrow> Scalar3 \<Rightarrow> u32 \<Rightarrow> u32 \<Rightarrow> nlist_state \<Rightarrow> nlist_state" where
  "visit_particle args regs r_cutsq_i pos_i_image node cur_p st =
    (let leaf_head = d_aabb_node_head_idx args (unat node);
         cur_xyzf = d_leaf_xyzf args (unat (leaf_head + cur_p));
         j = w4 cur_xyzf;
         cur_db = d_leaf_db args (unat (leaf_head + cur_p));
         dr2 = candidate_dr2 args pos_i_image cur_xyzf
     in visit_candidate (filter_body args) regs (d_Nmax args (unat (type_i regs))) r_cutsq_i dr2 j
          (y2 cur_db) st)"

definition scan_leaf ::
  "traverse_args \<Rightarrow> thread_regs \<Rightarrow> Scalar \<Rightarrow> Scalar3 \<Rightarrow> u32 \<Rightarrow> u32 \<Rightarrow> nlist_state \<Rightarrow> nlist_state" where
  "scan_leaf args regs r_cutsq_i pos_i_image node np st =
    fold (\<lambda>cur_p. visit_particle args regs r_cutsq_i pos_i_image node (word_of_nat cur_p))
      [0..<unat np] st"

definition aabb_overlap :: "Scalar3 \<Rightarrow> Scalar3 \<Rightarrow> Scalar4 \<Rightarrow> Scalar4 \<Rightarrow> bool" where
  "aabb_overlap aabb_upper aabb_lower upper_skip lower_np =
    (\<not> (x3 aabb_upper < x4 lower_np \<or> x3 aabb_lower > x4 upper_skip
        \<or> y3 aabb_upper < y4 lower_np \<or> y3 aabb_lower > y4 upper_skip
        \<or> z3 aabb_upper < z4 lower_np \<or> z3 aabb_lower > z4 upper_skip))"

text \<open>
  The stackless search over the nodes of one tree. A node whose box does not overlap adds its
  skip value to the loop counter, in \<^verbatim>\<open>unsigned int\<close> arithmetic, so the loop need not end for
  arbitrary skip values: the function takes fuel and returns \<open>None\<close> when it runs out.
\<close>

fun search_nodes ::
  "nat \<Rightarrow> traverse_args \<Rightarrow> thread_regs \<Rightarrow> Scalar \<Rightarrow> Scalar \<Rightarrow> Scalar3 \<Rightarrow> AABBTreeGPU \<Rightarrow> u32
    \<Rightarrow> nlist_state \<Rightarrow> nlist_state option" where
  "search_nodes 0 args regs r_cut_i r_cutsq_i pos_i_image cur_aabb_tree cur_node_idx st = None"
| "search_nodes (Suc fuel) args regs r_cut_i r_cutsq_i pos_i_image cur_aabb_tree cur_node_idx st =
    (if cur_node_idx < num_nodes cur_aabb_tree then
       (let node = node_head cur_aabb_tree + cur_node_idx;
            upper_skip = d_aabb_node_bounds args (unat (2 * node));
            lower_np = d_aabb_node_bounds args (unat (2 * node + 1));
            aabb_upper = \<lparr>x3 = fl args (x3 pos_i_image + r_cut_i),
                          y3 = fl args (y3 pos_i_image + r_cut_i),
                          z3 = fl args (z3 pos_i_image + r_cut_i)\<rparr>;
            aabb_lower = \<lparr>x3 = fl args (x3 pos_i_image - r_cut_i),
                          y3 = fl args (y3 pos_i_image - r_cut_i),
                          z3 = fl args (z3 pos_i_image - r_cut_i)\<rparr>
        in if aabb_overlap aabb_upper aabb_lower upper_skip lower_np then
             search_nodes fuel args regs r_cut_i r_cutsq_i pos_i_image cur_aabb_tree
               (cur_node_idx + 1)
               (scan_leaf args regs r_cutsq_i pos_i_image node (w4 lower_np) st)
           else
             search_nodes fuel args regs r_cut_i r_cutsq_i pos_i_image cur_aabb_tree
               (cur_node_idx + w4 upper_skip + 1) st)
     else Some st)"

text \<open>A counted \<^verbatim>\<open>for\<close> loop whose body may fail to return.\<close>

fun for_each :: "('i \<Rightarrow> 's \<Rightarrow> 's option) \<Rightarrow> 'i list \<Rightarrow> 's \<Rightarrow> 's option" where
  "for_each body [] st = Some st"
| "for_each body (i # is) st = (case body i st of None \<Rightarrow> None | Some st' \<Rightarrow> for_each body is st')"

definition search_image ::
  "nat \<Rightarrow> traverse_args \<Rightarrow> thread_regs \<Rightarrow> Scalar \<Rightarrow> AABBTreeGPU \<Rightarrow> nat \<Rightarrow> nlist_state
    \<Rightarrow> nlist_state option" where
  "search_image fuel args regs r_cut_i cur_aabb_tree cur_image st =
    (let image = d_image_list args cur_image;
         pos_i_image = \<lparr>x3 = fl args (x4 (postype_i regs) + x3 image),
                         y3 = fl args (y4 (postype_i regs) + y3 image),
                         z3 = fl args (z4 (postype_i regs) + z3 image)\<rparr>;
         r_cutsq_i = fl args (r_cut_i * r_cut_i)
     in search_nodes fuel args regs r_cut_i r_cutsq_i pos_i_image cur_aabb_tree 0 st)"

definition search_type ::
  "nat \<Rightarrow> traverse_args \<Rightarrow> thread_regs \<Rightarrow> nat \<Rightarrow> nlist_state \<Rightarrow> nlist_state option" where
  "search_type fuel args regs cur_pair_type st =
    (let r_cut_i = fl args
           (d_r_cut args (unat (typpair_idx args (type_i regs) (word_of_nat cur_pair_type)))
              + r_buff args);
         cur_aabb_tree = d_aabb_trees args cur_pair_type
     in for_each (search_image fuel args regs r_cut_i cur_aabb_tree) [0..<unat (nimages args)] st)"

definition load_regs :: "traverse_args \<Rightarrow> u32 \<Rightarrow> thread_regs" where
  "load_regs args idx =
    (let pidx = d_aabb_leaf_particles args (unat idx);
         postype = d_pos args (unat pidx)
     in \<lparr>my_pidx = pidx, postype_i = postype, type_i = w4 postype,
         body_i = d_body args (unat pidx), nlist_head_i = d_head_list args (unat pidx)\<rparr>)"

definition traverse_neighbors ::
  "nat \<Rightarrow> traverse_args \<Rightarrow> traverse_mem \<Rightarrow> u32 \<Rightarrow> nlist_state option" where
  "traverse_neighbors fuel args mem idx =
    for_each (search_type fuel args (load_regs args idx)) [0..<unat (ntypes args)] (d_nlist mem, 0)"

definition gpu_nlist_traverse_tree_kernel ::
  "nat \<Rightarrow> traverse_args \<Rightarrow> traverse_mem \<Rightarrow> u32 \<Rightarrow> traverse_mem option" where
  "gpu_nlist_traverse_tree_kernel fuel args mem idx =
    (if idx \<ge> N args then Some mem
     else
       (case traverse_neighbors fuel args mem idx of
          None \<Rightarrow> None
        | Some (nl, n_neigh_i) \<Rightarrow>
            (let regs = load_regs args idx;
                 pidx = unat (my_pidx regs);
                 t = unat (type_i regs)
             in Some \<lparr>d_nlist = nl,
                  d_n_neigh = (d_n_neigh mem)(pidx := n_neigh_i),
                  d_last_updated_pos = (d_last_updated_pos mem)(pidx := postype_i regs),
                  d_conditions =
                    (if n_neigh_i \<ge> d_Nmax args t
                     then (d_conditions mem)(t := max (d_conditions mem t) n_neigh_i)
                     else d_conditions mem)\<rparr>)))"

text \<open>
  Skip values that keep the node counter below \<open>2 ^ 32\<close>; with them the search ends.
\<close>

definition skips_in_range :: "traverse_args \<Rightarrow> AABBTreeGPU \<Rightarrow> bool" where
  "skips_in_range args tree =
    (\<forall>k \<in> set [0..<unat (num_nodes tree)].
       k + unat (w4 (d_aabb_node_bounds args (unat (2 * (node_head tree + word_of_nat k))))) + 1
         < 2 ^ 32)"

text \<open>
  The exclusion rule as the specification words it, with the self test restricted to the
  primary image.
\<close>

definition excluded_as_claimed :: "bool \<Rightarrow> bool \<Rightarrow> u32 \<Rightarrow> u32 \<Rightarrow> u32 \<Rightarrow> u32 \<Rightarrow> bool" where
  "excluded_as_claimed primary_image fb pidx bi j bj =
    ((j = pidx \<and> primary_image) \<or> (fb \<and> bi \<noteq> 0xffffffff \<and> bi = bj \<and> bj \<noteq> 0xffffffff))"

text \<open>
  A small system: two particles of one type at distance \<open>1 / 2\<close>, one leaf holding both,
  cutoff 1, capacity 1, and two periodic images, the primary one and a shift by 1 along x.
  All its coordinates, sums, differences and products are small multiples of \<open>1 / 4\<close>, which
  both floating-point formats represent, so the rounding leaves them as they are: the
  example takes the identity for \<open>fl\<close> and the sum of the three products for \<open>dot\<close>.
\<close>

definition two_particles :: traverse_args where
  "two_particles =
    \<lparr>d_Nmax = (\<lambda>_. 1),
     d_head_list = (\<lambda>p. if p = 0 then 0 else 4),
     d_pos = (\<lambda>p. if p = 0 then \<lparr>x4 = 0, y4 = 0, z4 = 0, w4 = 0\<rparr>
                    else \<lparr>x4 = 1 / 2, y4 = 0, z4 = 0, w4 = 0\<rparr>),
     d_body = (\<lambda>_. 0xffffffff),
     N = 2,
     d_aabb_trees = (\<lambda>_. \<lparr>num_nodes = 1, node_head = 0\<rparr>),
     d_aabb_node_bounds = (\<lambda>a. if a = 0 then \<lparr>x4 = 1 / 2, y4 = 0, z4 = 0, w4 = 0\<rparr>
                    else \<lparr>x4 = 0, y4 = 0, z4 = 0, w4 = 2\<rparr>),
     d_aabb_node_head_idx = (\<lambda>_. 0),
     d_aabb_leaf_particles = (\<lambda>p. if p = 0 then 0 else 1),
     d_leaf_xyzf = (\<lambda>p. if p = 0 then \<lparr>x4 = 0, y4 = 0, z4 = 0, w4 = 0\<rparr>
                    else \<lparr>x4 = 1 / 2, y4 = 0, z4 = 0, w4 = 1\<rparr>),
     d_leaf_db = (\<lambda>_. \<lparr>x2 = 1, y2 = 0xffffffff\<rparr>),
     d_image_list = (\<lambda>c. if c = 0 then \<lparr>x3 = 0, y3 = 0, z3 = 0\<rparr>
                    else \<lparr>x3 = 1, y3 = 0, z3 = 0\<rparr>),
     nimages = 2,
     d_r_cut = (\<lambda>_. 1),
     r_buff = 0,
     ntypes = 1,
     filter_body = False,
     typpair_idx = (\<lambda>i j. j * 1 + i),
     fl = (\<lambda>v. v),
     dot = (\<lambda>a b. x3 a * x3 b + y3 a * y3 b + z3 a * z3 b)\<rparr>"

definition empty_mem :: traverse_mem where
  "empty_mem =
    \<lparr>d_nlist = (\<lambda>_. 9), d_n_neigh = (\<lambda>_. 0),
     d_last_updated_pos = (\<lambda>_. \<lparr>x4 = 0, y4 = 0, z4 = 0, w4 = 0\<rparr>),
     d_conditions = (\<lambda>_. 0)\<rparr>"

section \<open>Morton encoder: bins and the kernel\<close>

text \<open>
  \<^verbatim>\<open>gpu_nlist_morton_codes_kernel\<close>, one thread. The fractional coordinate is a real number;
  the product with 1024, a power of two, is exact in floating point, and the conversion to
  \<^verbatim>\<open>unsigned int\<close> of a non-negative value is the floor. The literal \<^verbatim>\<open>1.00001\<close> is taken at its
  decimal value. \<^verbatim>\<open>BoxDim\<close> is declared in a header that is not part of the sources: its
  \<^verbatim>\<open>makeFraction\<close> (with the ghost width applied) and its periodicity flags are fields of the
  arguments. A thread either returns without writing (\<open>None\<close>) or stores one code and one
  particle index at \<open>leaf_idx\<close>.
\<close>

definition MORTON_CODE_N_BINS :: u32 where
  "MORTON_CODE_N_BINS = 1024"

definition out_of_domain :: "Scalar3 \<Rightarrow> bool" where
  "out_of_domain f =
    ((x3 f < 0 \<or> x3 f \<ge> 1.00001) \<or> (y3 f < 0 \<or> y3 f \<ge> 1.00001)
      \<or> (z3 f < 0 \<or> z3 f \<ge> 1.00001))"

definition morton_bin :: "bool \<Rightarrow> Scalar \<Rightarrow> u32" where
  "morton_bin periodic_axis fa =
    (let b = (word_of_int \<lfloor>fa * 1024\<rfloor> :: u32)
     in if b = MORTON_CODE_N_BINS \<and> periodic_axis then 0 else b)"

record morton_args =
  mc_d_pos :: "nat \<Rightarrow> Scalar4"
  d_map_p_global_tree :: "nat \<Rightarrow> u32"
  mc_N :: u32
  d_type_head :: "nat \<Rightarrow> u32"
  periodic :: "bool \<times> bool \<times> bool"
  makeFraction :: "Scalar3 \<Rightarrow> Scalar3"

record morton_write =
  leaf_idx :: u32
  code_written :: u32
  particle_written :: u32

definition gpu_nlist_morton_codes_kernel :: "morton_args \<Rightarrow> u32 \<Rightarrow> morton_write option" where
  "gpu_nlist_morton_codes_kernel args idx =
    (if idx \<ge> mc_N args then None
     else
       (let postype = mc_d_pos args (unat idx);
            pos = \<lparr>x3 = x4 postype, y3 = y4 postype, z3 = z4 postype\<rparr>;
            type = w4 postype;
            f = makeFraction args pos
        in if out_of_domain f then None
           else
             (let ib = morton_bin (fst (periodic args)) (x3 f);
                  jb = morton_bin (fst (snd (periodic args))) (y3 f);
                  kb = morton_bin (snd (snd (periodic args))) (z3 f)
              in Some \<lparr>leaf_idx = d_type_head args (unat type) + d_map_p_global_tree args (unat idx),
                       code_written = morton_code ib jb kb,
                       particle_written = idx\<rparr>)))"

text \<open>A single particle whose fractional coordinate is given directly.\<close>

definition particle_at :: "bool \<times> bool \<times> bool \<Rightarrow> Scalar3 \<Rightarrow> morton_args" where
  "particle_at per f =
    \<lparr>mc_d_pos = (\<lambda>_. \<lparr>x4 = x3 f, y4 = y3 f, z4 = z3 f, w4 = 0\<rparr>),
     d_map_p_global_tree = (\<lambda>_. 0), mc_N = 1, d_type_head = (\<lambda>_. 0),
     periodic = per, makeFraction = (\<lambda>p. p)\<rparr>"

section \<open>Hierarchy generator: segments, ranges and the kernel\<close>

text \<open>
  \<^verbatim>\<open>PARTICLES_PER_LEAF\<close> is defined in a header that is not part of the sources; it is a
  parameter. The number of leaves of a type is the term the leaf merger adds to \<^verbatim>\<open>total_bins\<close>
  (line 487), the number of internal nodes the term the hierarchy generator adds to
  \<^verbatim>\<open>max_idx\<close> (line 303), both in \<^verbatim>\<open>unsigned int\<close> arithmetic.
\<close>

definition leaves_of_type :: "u32 \<Rightarrow> u32 \<Rightarrow> u32" where
  "leaves_of_type PARTICLES_PER_LEAF num = (num + PARTICLES_PER_LEAF - 1) div PARTICLES_PER_LEAF"

definition internal_nodes_of_type :: "u32 \<Rightarrow> u32 \<Rightarrow> u32" where
  "internal_nodes_of_type PARTICLES_PER_LEAF num =
    (num + PARTICLES_PER_LEAF - 1) div PARTICLES_PER_LEAF - 1"

text \<open>
  The loop over the types at the head of \<^verbatim>\<open>gpu_nlist_gen_hierarchy_kernel\<close> (lines 290 to 315):
  it yields \<^verbatim>\<open>origin\<close>, \<^verbatim>\<open>end\<close>, \<^verbatim>\<open>node_idx\<close> and the value of \<^verbatim>\<open>cur_type\<close> after the loop.
\<close>

record type_segment =
  origin :: u32
  end_idx :: u32
  node_idx :: u32
  seg_type :: u32

lemma walk_types_measure:
  fixes cur_type :: u32
  assumes "cur_type < n_types"
  shows "unat n_types - unat (cur_type + 1) < unat n_types - unat cur_type"
proof -
  have "unat cur_type < unat n_types" using assms by (simp add: word_less_nat_alt)
  moreover have "unat n_types < 2 ^ 32" using unsigned_less [of n_types] by simp
  ultimately have "unat (cur_type + 1) = unat cur_type + 1"
    by (simp add: unat_word_ariths)
  with \<open>unat cur_type < unat n_types\<close> show ?thesis by simp
qed

function walk_types :: "u32 \<Rightarrow> u32 list \<Rightarrow> u32 \<Rightarrow> u32 \<Rightarrow> u32 \<Rightarrow> u32 \<Rightarrow> type_segment" where
  "walk_types PARTICLES_PER_LEAF d_num_per_type n_types idx cur_type max_idx0 =
    (if cur_type < n_types then
       (let min_idx = max_idx0;
            max_idx = max_idx0
              + internal_nodes_of_type PARTICLES_PER_LEAF (d_num_per_type ! unat cur_type)
        in if idx < max_idx then
             \<lparr>origin = min_idx + cur_type, end_idx = max_idx + cur_type,
              node_idx = idx + cur_type, seg_type = cur_type\<rparr>
           else walk_types PARTICLES_PER_LEAF d_num_per_type n_types idx (cur_type + 1) max_idx)
     else \<lparr>origin = 0, end_idx = 0, node_idx = idx, seg_type = cur_type\<rparr>)"
  by pat_completeness auto
termination
  by (relation "measure (\<lambda>(L, npt, n_types, idx, cur_type, m). unat n_types - unat cur_type)")
    (use walk_types_measure in auto)

declare walk_types.simps [simp del]

text \<open>
  \<^verbatim>\<open>determineRange\<close>. The first loop doubles \<^verbatim>\<open>lmax\<close> while the prefix stays longer than
  \<^verbatim>\<open>min_prefix\<close>; it need not end (once \<^verbatim>\<open>lmax\<close> is 0 the test no longer changes), so it takes
  fuel. The second loop halves \<^verbatim>\<open>step\<close> and always ends. The \<^verbatim>\<open>int\<close> variables \<^verbatim>\<open>idx\<close>, \<^verbatim>\<open>d\<close>
  and \<^verbatim>\<open>lmax\<close> are bit patterns.
\<close>

fun grow_lmax :: "nat \<Rightarrow> u32 list \<Rightarrow> u32 \<Rightarrow> u32 \<Rightarrow> u32 \<Rightarrow> u32 \<Rightarrow> int \<Rightarrow> u32 \<Rightarrow> u32 option" where
  "grow_lmax 0 d_morton_codes min_idx max_idx idx d min_prefix lmax = None"
| "grow_lmax (Suc fuel) d_morton_codes min_idx max_idx idx d min_prefix lmax =
    (if delta d_morton_codes idx (idx + d * lmax) min_idx max_idx > min_prefix
     then grow_lmax fuel d_morton_codes min_idx max_idx idx d min_prefix (push_bit 1 lmax)
     else Some lmax)"

lemma range_len_measure:
  fixes step0 :: u32
  assumes "1 < drop_bit 1 step0"
  shows "unat (drop_bit 1 step0) < unat step0"
  using assms unfolding word_less_nat_alt unat_shiftr1 by simp

function range_len :: "u32 list \<Rightarrow> u32 \<Rightarrow> u32 \<Rightarrow> u32 \<Rightarrow> u32 \<Rightarrow> int \<Rightarrow> u32 \<Rightarrow> u32 \<Rightarrow> u32" where
  "range_len d_morton_codes min_idx max_idx idx d min_prefix len step0 =
    (let step = drop_bit 1 step0;
         new_len = len + step;
         len' = (if delta d_morton_codes idx (idx + d * new_len) min_idx max_idx > min_prefix
                 then new_len else len)
     in if step > 1 then range_len d_morton_codes min_idx max_idx idx d min_prefix len' step
        else len')"
  by pat_completeness auto
termination
  by (relation "measure (\<lambda>(c, mn, mx, idx, d, mp, len, step0). unat step0)")
    (use range_len_measure in auto)

declare range_len.simps [simp del]

definition determineRange :: "nat \<Rightarrow> u32 list \<Rightarrow> u32 \<Rightarrow> u32 \<Rightarrow> u32 \<Rightarrow> (u32 \<times> u32) option" where
  "determineRange fuel d_morton_codes min_idx max_idx idx =
    (let forward_prefix = delta d_morton_codes idx (idx + 1) min_idx max_idx;
         backward_prefix = delta d_morton_codes idx (idx - 1) min_idx max_idx;
         d = (if forward_prefix - backward_prefix > 0 then 1 else - 1);
         min_prefix = delta d_morton_codes idx (idx - d) min_idx max_idx
     in case grow_lmax fuel d_morton_codes min_idx max_idx idx d min_prefix 2 of
          None \<Rightarrow> None
        | Some lmax \<Rightarrow>
            (let len = range_len d_morton_codes min_idx max_idx idx d min_prefix 0 lmax
             in Some (if d = 1 then (idx, idx + len) else (idx - len, idx))))"

text \<open>
  The three arrays the kernel writes, as maps from the element offset: an entry is defined
  once some thread has stored to it.
\<close>

record hierarchy_mem =
  d_leaf_parents :: "nat \<rightharpoonup> u32"
  d_node_parents :: "nat \<rightharpoonup> u32"
  d_node_children :: "nat \<rightharpoonup> u32 \<times> u32"

definition set_leaf_parent :: "u32 \<Rightarrow> u32 \<Rightarrow> hierarchy_mem \<Rightarrow> hierarchy_mem" where
  "set_leaf_parent leaf p mem = mem\<lparr>d_leaf_parents := (d_leaf_parents mem)(unat leaf \<mapsto> p)\<rparr>"

definition set_node_parent :: "u32 \<Rightarrow> u32 \<Rightarrow> hierarchy_mem \<Rightarrow> hierarchy_mem" where
  "set_node_parent node p mem = mem\<lparr>d_node_parents := (d_node_parents mem)(unat node \<mapsto> p)\<rparr>"

definition gpu_nlist_gen_hierarchy_kernel ::
  "nat \<Rightarrow> u32 \<Rightarrow> u32 list \<Rightarrow> u32 list \<Rightarrow> u32 \<Rightarrow> u32 \<Rightarrow> hierarchy_mem \<Rightarrow> u32 \<Rightarrow> hierarchy_mem option" where
  "gpu_nlist_gen_hierarchy_kernel fuel PARTICLES_PER_LEAF d_morton_codes d_num_per_type n_types nleafs
      mem idx =
    (if idx \<ge> nleafs - n_types then Some mem
     else
       (let seg = walk_types PARTICLES_PER_LEAF d_num_per_type n_types idx 0 0;
            cur_type = seg_type seg
        in case determineRange fuel d_morton_codes (origin seg) (end_idx seg) (node_idx seg) of
             None \<Rightarrow> None
           | Some (first, last_idx) \<Rightarrow>
               (let split = findSplit d_morton_codes first last_idx;
                    children_x = (if split = first then push_bit 1 split OR 1
                                  else push_bit 1 (split - cur_type));
                    mem1 = (if split = first then set_leaf_parent split idx mem
                            else set_node_parent (split - cur_type) idx mem);
                    children_y = (if split + 1 = last_idx then push_bit 1 (split + 1) OR 1
                                  else push_bit 1 (split - cur_type + 1));
                    mem2 = (if split + 1 = last_idx then set_leaf_parent (split + 1) idx mem1
                            else set_node_parent (split - cur_type + 1) idx mem1);
                    mem3 = (if node_idx seg = origin seg then set_node_parent idx idx mem2 else mem2)
                in Some (mem3\<lparr>d_node_children :=
                                 (d_node_children mem3)(unat idx \<mapsto> (children_x, children_y))\<rparr>))))"

text \<open>
  The launch: one thread per index below \<^verbatim>\<open>nleafs - ntypes\<close>. The threads only read the
  codes, so they are run one after the other.
\<close>

definition gpu_nlist_gen_hierarchy ::
  "nat \<Rightarrow> u32 \<Rightarrow> u32 list \<Rightarrow> u32 list \<Rightarrow> u32 \<Rightarrow> u32 \<Rightarrow> hierarchy_mem option" where
  "gpu_nlist_gen_hierarchy fuel PARTICLES_PER_LEAF d_morton_codes d_num_per_type n_types nleafs =
    for_each
      (\<lambda>i mem. gpu_nlist_gen_hierarchy_kernel fuel PARTICLES_PER_LEAF d_morton_codes d_num_per_type
         n_types nleafs mem (word_of_nat i))
      [0..<unat (nleafs - n_types)]
      \<lparr>d_leaf_parents = Map.empty, d_node_parents = Map.empty, d_node_children = Map.empty\<rparr>"

text \<open>The first \<open>n\<close> entries of the three arrays.\<close>

definition show_hierarchy :: "nat \<Rightarrow> hierarchy_mem option \<Rightarrow>
    (u32 option list \<times> u32 option list \<times> (u32 \<times> u32) option list) option" where
  "show_hierarchy n m = map_option (\<lambda>mem.
     (map (d_leaf_parents mem) [0..<n], map (d_node_parents mem) [0..<n],
      map (d_node_children mem) [0..<n])) m"

section \<open>Bounding-box propagator\<close>

text \<open>
  \<^verbatim>\<open>gpu_nlist_bubble_aabbs_kernel\<close>, one thread. \<^verbatim>\<open>atomicAdd\<close> returns the old value of the
  lock and stores the incremented one. Reading an entry of the hierarchy that no thread of
  the generator has stored is a fault. The walk takes fuel. The field \<open>aabb_writes\<close> is
  auxiliary: it counts, for every internal node, the stores of its merged upper bound.
\<close>

datatype fault = OutOfFuel | UninitialisedRead

record bubble_mem =
  d_node_locks :: "nat \<Rightarrow> u32"
  d_tree_aabbs :: "nat \<Rightarrow> Scalar4"
  aabb_writes :: "nat \<Rightarrow> nat"

definition merge_upper :: "Scalar4 \<Rightarrow> Scalar4 \<Rightarrow> Scalar4" where
  "merge_upper sib_upper cur_upper =
    cur_upper\<lparr>x4 := (if x4 sib_upper > x4 cur_upper then x4 sib_upper else x4 cur_upper),
              y4 := (if y4 sib_upper > y4 cur_upper then y4 sib_upper else y4 cur_upper),
              z4 := (if z4 sib_upper > z4 cur_upper then z4 sib_upper else z4 cur_upper)\<rparr>"

definition merge_lower :: "Scalar4 \<Rightarrow> Scalar4 \<Rightarrow> Scalar4" where
  "merge_lower sib_lower cur_lower =
    cur_lower\<lparr>x4 := (if x4 sib_lower < x4 cur_lower then x4 sib_lower else x4 cur_lower),
              y4 := (if y4 sib_lower < y4 cur_lower then y4 sib_lower else y4 cur_lower),
              z4 := (if z4 sib_lower < z4 cur_lower then z4 sib_lower else z4 cur_lower)\<rparr>"

fun bubble_walk ::
  "nat \<Rightarrow> hierarchy_mem \<Rightarrow> u32 \<Rightarrow> Scalar4 \<Rightarrow> Scalar4 \<Rightarrow> u32 \<Rightarrow> u32 \<Rightarrow> bubble_mem
    \<Rightarrow> fault + bubble_mem" where
  "bubble_walk 0 h nleafs cur_upper cur_lower cur_child cur_parent mem = Inl OutOfFuel"
| "bubble_walk (Suc fuel) h nleafs cur_upper cur_lower cur_child cur_parent mem =
    (let lock_key = d_node_locks mem (unat cur_parent);
         mem1 = mem\<lparr>d_node_locks := (d_node_locks mem)(unat cur_parent := lock_key + 1)\<rparr>
     in if lock_key = 1 then
          (case d_node_children h (unat cur_parent) of
             None \<Rightarrow> Inl UninitialisedRead
           | Some (left_child, right_child) \<Rightarrow>
               (let cur_sibling0 = (if left_child = cur_child then right_child else left_child);
                    cur_sibling1 = drop_bit 1 cur_sibling0;
                    cur_sibling = cur_sibling1
                      + (if (left_child = cur_child \<and> \<not> bit right_child 0)
                            \<or> (right_child = cur_child \<and> \<not> bit left_child 0)
                         then 1 else 0) * nleafs;
                    sib_upper = d_tree_aabbs mem1 (unat (2 * cur_sibling));
                    new_upper = merge_upper sib_upper cur_upper;
                    mem2 = mem1\<lparr>d_tree_aabbs :=
                             (d_tree_aabbs mem1)(unat (2 * (nleafs + cur_parent)) := new_upper),
                           aabb_writes :=
                             (aabb_writes mem1)(unat cur_parent := Suc (aabb_writes mem1 (unat cur_parent)))\<rparr>;
                    sib_lower = d_tree_aabbs mem2 (unat (2 * cur_sibling + 1));
                    new_lower = merge_lower sib_lower cur_lower;
                    mem3 = mem2\<lparr>d_tree_aabbs :=
                             (d_tree_aabbs mem2)(unat (2 * (nleafs + cur_parent) + 1) := new_lower)\<rparr>;
                    new_child = push_bit 1 cur_parent
                in case d_node_parents h (unat (drop_bit 1 new_child)) of
                     None \<Rightarrow> Inl UninitialisedRead
                   | Some new_parent \<Rightarrow>
                       if new_child \<noteq> new_parent
                       then bubble_walk fuel h nleafs new_upper new_lower new_child new_parent mem3
                       else Inr mem3))
        else Inr mem1)"

definition gpu_nlist_bubble_aabbs_kernel ::
  "nat \<Rightarrow> hierarchy_mem \<Rightarrow> u32 \<Rightarrow> bubble_mem \<Rightarrow> u32 \<Rightarrow> fault + bubble_mem" where
  "gpu_nlist_bubble_aabbs_kernel fuel h nleafs mem idx =
    (if idx \<ge> nleafs then Inr mem
     else
       (let cur_upper = (d_tree_aabbs mem (unat (2 * idx)))\<lparr>w4 := 0\<rparr>;
            cur_lower = (d_tree_aabbs mem (unat (2 * idx + 1)))\<lparr>w4 := 0\<rparr>;
            cur_child = push_bit 1 idx OR 1
        in case d_leaf_parents h (unat idx) of
             None \<Rightarrow> Inl UninitialisedRead
           | Some cur_parent \<Rightarrow>
               bubble_walk fuel h nleafs cur_upper cur_lower cur_child cur_parent mem))"

text \<open>
  \<^verbatim>\<open>gpu_nlist_bubble_aabbs\<close>: the locks are cleared, then the threads run. A schedule lists
  the threads in the order in which they run, each to completion.
\<close>

fun run_threads :: "('s \<Rightarrow> u32 \<Rightarrow> fault + 's) \<Rightarrow> u32 list \<Rightarrow> 's \<Rightarrow> fault + 's" where
  "run_threads thread [] mem = Inr mem"
| "run_threads thread (idx # schedule) mem =
    (case thread mem idx of Inl e \<Rightarrow> Inl e | Inr mem' \<Rightarrow> run_threads thread schedule mem')"

definition gpu_nlist_bubble_aabbs ::
  "nat \<Rightarrow> hierarchy_mem \<Rightarrow> u32 \<Rightarrow> (nat \<Rightarrow> Scalar4) \<Rightarrow> u32 list \<Rightarrow> fault + bubble_mem" where
  "gpu_nlist_bubble_aabbs fuel h nleafs aabbs schedule =
    run_threads (gpu_nlist_bubble_aabbs_kernel fuel h nleafs) schedule
      \<lparr>d_node_locks = (\<lambda>_. 0), d_tree_aabbs = aabbs, aabb_writes = (\<lambda>_. 0)\<rparr>"

text \<open>
  Example data: leaf boxes that are single points on the x axis, the hierarchy the
  generator builds for the four leaf codes 0, 1, 2, 4 of one type, and the one it builds
  for two types with two leaves each.
\<close>

definition leaf_points :: "nat \<Rightarrow> Scalar4" where
  "leaf_points a = \<lparr>x4 = real (a div 2), y4 = 0, z4 = 0, w4 = 0\<rparr>"

definition four_leaves :: hierarchy_mem where
  "four_leaves =
    \<lparr>d_leaf_parents = [0 \<mapsto> 1, 1 \<mapsto> 1, 2 \<mapsto> 2, 3 \<mapsto> 0],
     d_node_parents = [0 \<mapsto> 0, 1 \<mapsto> 2, 2 \<mapsto> 0],
     d_node_children = [0 \<mapsto> (4, 7), 1 \<mapsto> (1, 3), 2 \<mapsto> (2, 5)]\<rparr>"

definition two_types :: hierarchy_mem where
  "two_types =
    \<lparr>d_leaf_parents = [0 \<mapsto> 0, 1 \<mapsto> 0, 2 \<mapsto> 1, 3 \<mapsto> 1],
     d_node_parents = [0 \<mapsto> 0, 1 \<mapsto> 1],
     d_node_children = [0 \<mapsto> (1, 3), 1 \<mapsto> (5, 7)]\<rparr>"

definition show_bubble :: "nat \<Rightarrow> fault + bubble_mem \<Rightarrow> fault + (u32 list \<times> nat list)" where
  "show_bubble n r =
    map_sum id (\<lambda>mem. (map (d_node_locks mem) [0..<n], map (aabb_writes mem) [0..<n])) r"

section \<open>Properties of the bit expansion\<close>

lemma masked_mult_shift:
  fixes x m :: u32
  assumes "m AND push_bit k m = 0"
  shows "(x AND m) * (1 + 2 ^ k) = (x AND m) OR push_bit k (x AND m)"
proof -
  have "(x AND m) AND push_bit k (x AND m) = (x AND push_bit k x) AND (m AND push_bit k m)"
    by (simp add: push_bit_and ac_simps)
  then have "(x AND m) AND push_bit k (x AND m) = 0"
    using assms by simp
  then have "(x AND m) + push_bit k (x AND m) = (x AND m) OR push_bit k (x AND m)"
    by (rule disjunctive_add_eq_or)
  then show ?thesis
    by (simp add: push_bit_eq_mult algebra_simps)
qed

lemma round16: "(x AND 0x3FF) * 0x10001 = (x AND 0x3FF) OR push_bit 16 (x AND (0x3FF::u32))"
  using masked_mult_shift [of "0x3FF" 16 x] by simp

lemma round8:
  "(x AND 0xFF0000FF) * 0x101 = (x AND 0xFF0000FF) OR push_bit 8 (x AND (0xFF0000FF::u32))"
  using masked_mult_shift [of "0xFF0000FF" 8 x] by simp

lemma round4:
  "(x AND 0x0F00F00F) * 0x11 = (x AND 0x0F00F00F) OR push_bit 4 (x AND (0x0F00F00F::u32))"
  using masked_mult_shift [of "0x0F00F00F" 4 x] by simp

lemma round2:
  "(x AND 0xC30C30C3) * 5 = (x AND 0xC30C30C3) OR push_bit 2 (x AND (0xC30C30C3::u32))"
  using masked_mult_shift [of "0xC30C30C3" 2 x] by simp

lemma expandBits_shifts: "expandBits (v AND 0x3FF) = expand_shifts v"
  unfolding expandBits_def expand_shifts_def Let_def
  by (simp only: round16 round8 round4 round2)

lemma upt_32:
  "[0..<32] = [0, 1, 2, 3, 4, 5, 6, 7, 8, 9, 10, 11, 12, 13, 14, 15, 16, 17, 18, 19, 20,
     21, 22, 23, 24, 25, 26, 27, 28, 29, 30, 31]"
  by (simp add: upt_rec)

lemma expand_shifts_bits_below_32:
  "\<forall>n \<in> set [0..<32].
     bit (expand_shifts v) n = (n < 30 \<and> n mod 3 = 0 \<and> bit v (n div 3))"
  unfolding upt_32 by (simp add: expand_shifts_def bit_simps)

lemma bit_expand_shifts:
  "bit (expand_shifts v) n = (n < 30 \<and> n mod 3 = 0 \<and> bit v (n div 3))"
proof (cases "n < 32")
  case True
  then have "n \<in> set [0..<32]" by simp
  then show ?thesis by (rule bspec [OF expand_shifts_bits_below_32])
next
  case False
  then have "\<not> bit (expand_shifts v) n"
    using bit_imp_le_length [of "expand_shifts v" n] by auto
  with False show ?thesis by simp
qed

lemma ten_bit_mask: "(v :: u32) < 1024 \<Longrightarrow> v AND 0x3FF = v"
  using less_mask_eq [of v 10] by (simp add: mask_eq_exp_minus_1)

lemma bit_expandBits:
  assumes "(v :: u32) < 1024"
  shows "bit (expandBits v) n = (n < 30 \<and> n mod 3 = 0 \<and> bit v (n div 3))"
proof -
  have "expandBits v = expand_shifts v"
    using expandBits_shifts [of v] ten_bit_mask [OF assms] by simp
  then show ?thesis by (simp add: bit_expand_shifts)
qed

lemma masked_add_or:
  fixes a b :: u32
  assumes "a AND ma = a" "b AND mb = b" "ma AND mb = 0"
  shows "a + b = a OR b"
proof -
  have "a AND b = (a AND ma) AND (b AND mb)" using assms by simp
  also have "\<dots> = (a AND b) AND (ma AND mb)" by (simp add: ac_simps)
  finally have "a AND b = 0" using assms by simp
  then show ?thesis by (rule disjunctive_add_eq_or)
qed

lemma or_masked:
  fixes a b :: u32
  assumes "a AND ma = a" "b AND mb = b"
  shows "(a OR b) AND (ma OR mb) = a OR b"
  using assms unfolding bit_eq_iff bit_and_iff bit_or_iff by blast

lemma expandBits_masked: "expandBits v AND 0x49249249 = expandBits v"
  by (simp add: expandBits_def Let_def)

lemma shifted_masked:
  "push_bit k (expandBits v) AND push_bit k 0x49249249 = push_bit k (expandBits v)"
  using arg_cong [OF expandBits_masked [of v], of "push_bit k"]
  by (simp only: push_bit_and)

lemma morton_code_or:
  "morton_code ib jb kb = push_bit 2 (expandBits ib) OR push_bit 1 (expandBits jb) OR expandBits kb"
proof -
  have ij: "push_bit 2 (expandBits ib) + push_bit 1 (expandBits jb)
      = push_bit 2 (expandBits ib) OR push_bit 1 (expandBits jb)"
    by (rule masked_add_or [OF shifted_masked shifted_masked]) simp
  have "(push_bit 2 (expandBits ib) OR push_bit 1 (expandBits jb)) + expandBits kb
      = (push_bit 2 (expandBits ib) OR push_bit 1 (expandBits jb)) OR expandBits kb"
    by (rule masked_add_or [OF or_masked [OF shifted_masked shifted_masked] expandBits_masked])
      simp
  with ij show ?thesis
    by (simp add: morton_code_def Let_def push_bit_eq_mult or.assoc)
qed

lemma bit_morton_code:
  assumes "ib < 1024" "jb < 1024" "kb < 1024"
  shows "bit (morton_code ib jb kb) m =
    (m < 30 \<and> bit (if m mod 3 = 2 then ib else if m mod 3 = 1 then jb else kb) (m div 3))"
proof -
  have "bit (morton_code ib jb kb) m =
      (2 \<le> m \<and> m < 32 \<and> bit (expandBits ib) (m - 2) \<or>
       1 \<le> m \<and> m < 32 \<and> bit (expandBits jb) (m - 1) \<or> bit (expandBits kb) m)"
    unfolding morton_code_or bit_or_iff bit_push_bit_iff by auto
  also have "\<dots> = (2 \<le> m \<and> m < 32 \<and> m - 2 < 30 \<and> (m - 2) mod 3 = 0 \<and> bit ib ((m - 2) div 3) \<or>
       1 \<le> m \<and> m < 32 \<and> m - 1 < 30 \<and> (m - 1) mod 3 = 0 \<and> bit jb ((m - 1) div 3)
       \<or> m < 30 \<and> m mod 3 = 0 \<and> bit kb (m div 3))"
    by (simp only: bit_expandBits [OF assms(1)] bit_expandBits [OF assms(2)]
        bit_expandBits [OF assms(3)])
  finally have *: "bit (morton_code ib jb kb) m =
      (2 \<le> m \<and> m < 32 \<and> m - 2 < 30 \<and> (m - 2) mod 3 = 0 \<and> bit ib ((m - 2) div 3) \<or>
       1 \<le> m \<and> m < 32 \<and> m - 1 < 30 \<and> (m - 1) mod 3 = 0 \<and> bit jb ((m - 1) div 3)
       \<or> m < 30 \<and> m mod 3 = 0 \<and> bit kb (m div 3))" .
  consider "m mod 3 = 0" | "m mod 3 = 1" | "m mod 3 = 2" by linarith
  then show ?thesis
  proof cases
    case 1
    then have "(m - 2) mod 3 \<noteq> 0 \<or> m < 2" "(m - 1) mod 3 \<noteq> 0 \<or> m < 1" by presburger+
    with 1 show ?thesis unfolding * by auto
  next
    case 2
    then have a: "(m - 2) mod 3 \<noteq> 0 \<or> m < 2" "(m - 1) mod 3 = 0" "(m - 1) div 3 = m div 3" "1 \<le> m"
      by presburger+
    have "m < 32 \<and> m - 1 < 30 \<longleftrightarrow> m < 30" using 2 by presburger
    with 2 a show ?thesis unfolding * by auto
  next
    case 3
    then have a: "(m - 1) mod 3 \<noteq> 0" "(m - 2) mod 3 = 0" "(m - 2) div 3 = m div 3" "2 \<le> m"
      by presburger+
    have "m < 32 \<and> m - 2 < 30 \<longleftrightarrow> m < 30" using 3 by presburger
    with 3 a show ?thesis unfolding * by auto
  qed
qed


text \<open>
  Claim C8. For 10-bit bin indices \<open>ib\<close>, \<open>jb\<close>, \<open>kb\<close> the bit expansion inserts two zero
  bits after each of the ten bits (bit \<open>n\<close> of the argument becomes bit \<open>3 * n\<close> of the
  result and no other bit is set), the emitted code is
  \<open>expandBits ib * 4 + expandBits jb * 2 + expandBits kb\<close>, and that code is the 30-bit
  interleaving of the three coordinates: bit \<open>3 * n + 2\<close> is bit \<open>n\<close> of \<open>ib\<close>, bit
  \<open>3 * n + 1\<close> is bit \<open>n\<close> of \<open>jb\<close>, bit \<open>3 * n\<close> is bit \<open>n\<close> of \<open>kb\<close>, and no bit from
  position 30 on is set.
\<close>

theorem morton_code_interleaves:
  assumes "ib < 1024" and "jb < 1024" and "kb < 1024"
  shows "(\<forall>n. bit (expandBits ib) n = (n < 30 \<and> n mod 3 = 0 \<and> bit ib (n div 3)))
    \<and> (\<forall>n. bit (expandBits jb) n = (n < 30 \<and> n mod 3 = 0 \<and> bit jb (n div 3)))
    \<and> (\<forall>n. bit (expandBits kb) n = (n < 30 \<and> n mod 3 = 0 \<and> bit kb (n div 3)))
    \<and> morton_code ib jb kb = expandBits ib * 4 + expandBits jb * 2 + expandBits kb
    \<and> (\<forall>n<10. bit (morton_code ib jb kb) (3 * n + 2) = bit ib n
          \<and> bit (morton_code ib jb kb) (3 * n + 1) = bit jb n
          \<and> bit (morton_code ib jb kb) (3 * n) = bit kb n)
    \<and> (\<forall>m\<ge>30. \<not> bit (morton_code ib jb kb) m)"
proof -
  have "bit (morton_code ib jb kb) (3 * n + 2) = bit ib n" if "n < 10" for n
  proof -
    have "(3 * n + 2) mod 3 = 2" "(3 * n + 2) div 3 = n" "3 * n + 2 < 30"
      using that by presburger+
    then show ?thesis by (simp only: bit_morton_code [OF assms] if_True simp_thms)
  qed
  moreover have "bit (morton_code ib jb kb) (3 * n + 1) = bit jb n" if "n < 10" for n
  proof -
    have "(3 * n + 1) mod 3 = 1" "(3 * n + 1) div 3 = n" "3 * n + 1 < 30"
      using that by presburger+
    then show ?thesis by (simp add: bit_morton_code [OF assms])
  qed
  moreover have "bit (morton_code ib jb kb) (3 * n) = bit kb n" if "n < 10" for n
    using that by (simp add: bit_morton_code [OF assms])
  moreover have "\<not> bit (morton_code ib jb kb) m" if "30 \<le> m" for m
    using that by (simp add: bit_morton_code [OF assms])
  moreover have "morton_code ib jb kb = expandBits ib * 4 + expandBits jb * 2 + expandBits kb"
    by (simp add: morton_code_def Let_def)
  ultimately show ?thesis
    using bit_expandBits [OF assms(1)] bit_expandBits [OF assms(2)] bit_expandBits [OF assms(3)]
    by blast
qed

theorem morton_code_interleaves_witness:
  "(5 :: u32) < 1024 \<and> (3 :: u32) < 1024 \<and> (1023 :: u32) < 1024
   \<and> morton_code 5 3 1023 = expandBits 5 * 4 + expandBits 3 * 2 + expandBits 1023
   \<and> bit (morton_code 5 3 1023) (3 * 2 + 2) = bit (5 :: u32) 2
   \<and> bit (morton_code 5 3 1023) (3 * 2 + 1) = bit (3 :: u32) 2
   \<and> bit (morton_code 5 3 1023) (3 * 2) = bit (1023 :: u32) 2
   \<and> \<not> bit (morton_code 5 3 1023) 30"
proof -
  have h: "(5 :: u32) < 1024" "(3 :: u32) < 1024" "(1023 :: u32) < 1024" by simp_all
  have "(2 :: nat) < 10" "(30 :: nat) \<le> 30" by simp_all
  then show ?thesis
    using h morton_code_interleaves [OF h] by blast
qed

section \<open>Properties of the longest common prefix\<close>

lemma clz_from_xor: "clz_from n (a XOR b) = common_from n a b"
  by (induction n) (auto simp add: bit_xor_iff)

lemma clz_xor: "clz (a XOR b) = leading_common_bits a b"
  by (simp add: clz_def leading_common_bits_def clz_from_xor)

lemma sint_nonneg_uint:
  fixes w :: u32
  assumes "0 \<le> sint w"
  shows "sint w = uint w"
proof -
  have s: "sint w = signed_take_bit 31 (uint w)"
    by (simp add: sint_uint)
  with assms have nb: "\<not> bit (uint w) 31" by simp
  then have "signed_take_bit 31 (uint w) = take_bit 31 (uint w)"
    by (rule signed_take_bit_eq_if_positive)
  also have "\<dots> = uint w"
  proof (rule bit_eqI)
    fix n
    show "bit (take_bit 31 (uint w)) n = bit (uint w) n"
    proof (cases "n < 31")
      case True
      then show ?thesis by (simp add: bit_take_bit_iff)
    next
      case False
      then have "n = 31 \<or> 32 \<le> n" by arith
      then have "\<not> bit (uint w) n"
        using nb by (auto simp add: bit_uint_iff)
      with False show ?thesis by (simp add: bit_take_bit_iff)
    qed
  qed
  finally show ?thesis using s by simp
qed

text \<open>
  Claim C6. \<open>delta\<close> returns \<open>-1\<close> when \<open>j\<close> lies outside \<open>[min_idx, max_idx]\<close>; otherwise
  it returns the number of leading common bits of the two codes, except that for equal
  codes it returns the number of leading common bits of the two indices. The bounds are
  \<^verbatim>\<open>int\<close> parameters holding leaf indices, hence non-negative as signed values.
\<close>

theorem delta_longest_common_prefix:
  assumes "0 \<le> sint min_idx" and "0 \<le> sint max_idx"
  shows "delta d_morton_codes i j min_idx max_idx =
    (if uint j < sint min_idx \<or> sint max_idx < uint j then - 1
     else if d_morton_codes ! unat i = d_morton_codes ! unat j then leading_common_bits i j
     else leading_common_bits (d_morton_codes ! unat i) (d_morton_codes ! unat j))"
proof -
  have "j < min_idx \<longleftrightarrow> uint j < sint min_idx" "max_idx < j \<longleftrightarrow> sint max_idx < uint j"
    using assms by (simp_all add: sint_nonneg_uint word_less_def)
  then show ?thesis
    by (auto simp add: delta_def Let_def clz_xor)
qed

theorem delta_longest_common_prefix_witness:
  "0 \<le> sint (0 :: u32) \<and> 0 \<le> sint (3 :: u32)
   \<and> delta [5, 5, 6, 9] 1 4 0 3 = - 1
   \<and> delta [5, 5, 6, 9] 1 2 0 3 = leading_common_bits 5 6
   \<and> delta [5, 5, 6, 9] 1 0 0 3 = leading_common_bits 1 0
   \<and> leading_common_bits 5 6 = 30 \<and> leading_common_bits 1 0 = 31"
proof -
  have h: "0 \<le> sint (0 :: u32)" "0 \<le> sint (3 :: u32)" by simp_all
  have c: "leading_common_bits 5 6 = 30" "leading_common_bits 1 0 = 31"
    by (simp_all add: leading_common_bits_def eval_nat_numeral)
  show ?thesis
    using h c delta_longest_common_prefix [OF h, of "[5, 5, 6, 9]" 1 4]
      delta_longest_common_prefix [OF h, of "[5, 5, 6, 9]" 1 2]
      delta_longest_common_prefix [OF h, of "[5, 5, 6, 9]" 1 0]
    by simp
qed


section \<open>Properties of the split finding\<close>

lemma unat_add_small:
  fixes a b :: u32
  assumes "unat a + unat b < 2 ^ 32"
  shows "unat (a + b) = unat a + unat b"
  using assms by (simp add: unat_word_ariths)

lemma common_from_ge_iff:
  "k \<le> n \<Longrightarrow> (k \<le> common_from n a b) = (\<forall>m. n - k \<le> m \<and> m < n \<longrightarrow> bit a m = bit b m)"
proof (induction n arbitrary: k)
  case 0
  then show ?case by simp
next
  case (Suc n)
  show ?case
  proof (cases k)
    case 0
    then show ?thesis by auto
  next
    case (Suc k')
    with Suc.prems have k': "k' \<le> n" by simp
    have "(\<forall>m. Suc n - Suc k' \<le> m \<and> m < Suc n \<longrightarrow> bit a m = bit b m)
        = (bit a n = bit b n \<and> (\<forall>m. n - k' \<le> m \<and> m < n \<longrightarrow> bit a m = bit b m))"
      using k' by (auto simp add: less_Suc_eq)
    then show ?thesis
      using Suc.IH [OF k'] Suc by auto
  qed
qed

lemma leading_common_bits_ge_iff:
  assumes "k \<le> 32"
  shows "(int k \<le> leading_common_bits a b) = (drop_bit (32 - k) a = drop_bit (32 - k) b)"
proof -
  have "(drop_bit (32 - k) a = drop_bit (32 - k) b)
      = (\<forall>m. 32 - k \<le> m \<and> m < 32 \<longrightarrow> bit a m = bit b m)"
  proof
    assume e: "drop_bit (32 - k) a = drop_bit (32 - k) b"
    show "\<forall>m. 32 - k \<le> m \<and> m < 32 \<longrightarrow> bit a m = bit b m"
    proof (intro allI impI)
      fix m assume m: "32 - k \<le> m \<and> m < 32"
      have "bit (drop_bit (32 - k) a) (m - (32 - k)) = bit (drop_bit (32 - k) b) (m - (32 - k))"
        using e by simp
      then show "bit a m = bit b m"
        using m by (simp add: bit_drop_bit_eq)
    qed
  next
    assume h: "\<forall>m. 32 - k \<le> m \<and> m < 32 \<longrightarrow> bit a m = bit b m"
    show "drop_bit (32 - k) a = drop_bit (32 - k) b"
    proof (rule bit_word_eqI)
      fix n assume "n < LENGTH(32)"
      show "bit (drop_bit (32 - k) a) n = bit (drop_bit (32 - k) b) n"
      proof (cases "32 - k + n < 32")
        case True
        then show ?thesis using h by (simp add: bit_drop_bit_eq)
      next
        case False
        then have "\<not> bit a (32 - k + n)" "\<not> bit b (32 - k + n)"
          using bit_imp_le_length [of a "32 - k + n"] bit_imp_le_length [of b "32 - k + n"]
          by auto
        then show ?thesis by (simp add: bit_drop_bit_eq)
      qed
    qed
  qed
  then show ?thesis
    using common_from_ge_iff [OF assms, of a b] by (simp add: leading_common_bits_def)
qed

lemma drop_bit_mono:
  fixes a b :: u32
  assumes "a \<le> b"
  shows "drop_bit n a \<le> drop_bit n b"
  using assms unfolding word_le_nat_alt unat_drop_bit_eq
  by (simp add: drop_bit_eq_div div_le_mono)

lemma common_from_le: "common_from n a b \<le> n"
  by (induction n) auto

lemma leading_common_bits_range: "0 \<le> leading_common_bits a b \<and> leading_common_bits a b \<le> 32"
  using common_from_le [of 32 a b] by (simp add: leading_common_bits_def)

lemma leading_common_bits_between:
  assumes "a \<le> b" and "b \<le> c"
  shows "leading_common_bits a c \<le> leading_common_bits a b"
proof -
  define k where "k = nat (leading_common_bits a c)"
  have k: "k \<le> 32" "int k = leading_common_bits a c"
    using leading_common_bits_range [of a c] unfolding k_def by linarith+
  then have e: "drop_bit (32 - k) a = drop_bit (32 - k) c"
    using leading_common_bits_ge_iff [of k a c] by simp
  have "drop_bit (32 - k) a \<le> drop_bit (32 - k) b" "drop_bit (32 - k) b \<le> drop_bit (32 - k) c"
    using assms by (simp_all add: drop_bit_mono)
  with e have "drop_bit (32 - k) a = drop_bit (32 - k) b" by simp
  then have "int k \<le> leading_common_bits a b"
    using leading_common_bits_ge_iff [of k a b] k by simp
  with k show ?thesis by simp
qed


lemma findSplit_loop_greatest:
  assumes "unat last_idx < 2 ^ 31"
    and "unat split < unat last_idx"
    and "1 \<le> unat step0" and "unat step0 \<le> unat last_idx"
    and "cp < clz (fc XOR codes ! unat split)"
    and "\<forall>t. unat split + unat step0 \<le> t \<and> t < unat last_idx \<longrightarrow> \<not> cp < clz (fc XOR codes ! t)"
    and "\<forall>t t'. t \<le> t' \<and> t' < unat last_idx \<and> cp < clz (fc XOR codes ! t')
           \<longrightarrow> unat first \<le> t \<longrightarrow> cp < clz (fc XOR codes ! t)"
    and "unat first \<le> unat split"
  shows "unat split \<le> unat (findSplit_loop codes fc cp last_idx split step0)
    \<and> unat (findSplit_loop codes fc cp last_idx split step0) < unat last_idx
    \<and> cp < clz (fc XOR codes ! unat (findSplit_loop codes fc cp last_idx split step0))
    \<and> (\<forall>t. unat (findSplit_loop codes fc cp last_idx split step0) < t \<and> t < unat last_idx
          \<longrightarrow> \<not> cp < clz (fc XOR codes ! t))"
  using assms
proof (induction codes fc cp last_idx split step0 rule: findSplit_loop.induct)
  case (1 codes fc cp last_idx split step0)
  define step where "step = drop_bit 1 (step0 + 1)"
  define new_split where "new_split = split + step"
  define split' where "split' =
    (if new_split < last_idx \<and> cp < clz (fc XOR codes ! unat new_split) then new_split else split)"
  have unfold: "findSplit_loop codes fc cp last_idx split step0 =
      (if step > 1 then findSplit_loop codes fc cp last_idx split' step else split')"
    by (subst findSplit_loop.simps) (simp add: Let_def step_def new_split_def split'_def)
  have "unat step0 + 1 < 2 ^ 32" using "1.prems"(1,4) by simp
  then have "unat (step0 + 1) = unat step0 + 1"
    using unat_add_small [of step0 1] by simp
  then have ustep: "unat step = (unat step0 + 1) div 2"
    unfolding step_def unat_shiftr1 by simp
  have step_pos: "1 \<le> unat step" and step_le: "unat step \<le> unat step0"
    and step2: "unat step0 \<le> 2 * unat step"
    using ustep "1.prems"(3) by linarith+
  have "unat split + unat step < 2 ^ 32" using "1.prems"(1,2,4) step_le by simp
  then have unew: "unat new_split = unat split + unat step"
    unfolding new_split_def by (rule unat_add_small)
  have lt: "new_split < last_idx \<longleftrightarrow> unat split + unat step < unat last_idx"
    by (simp add: word_less_nat_alt unew)
  have s'1: "unat split \<le> unat split'" "unat split' < unat last_idx"
    "cp < clz (fc XOR codes ! unat split')" "unat first \<le> unat split'"
    using "1.prems"(2,5,8) by (auto simp add: split'_def lt unew)
  have s'2: "\<forall>t. unat split' + unat step \<le> t \<and> t < unat last_idx \<longrightarrow> \<not> cp < clz (fc XOR codes ! t)"
  proof (intro allI impI)
    fix t assume t: "unat split' + unat step \<le> t \<and> t < unat last_idx"
    show "\<not> cp < clz (fc XOR codes ! t)"
    proof (cases "new_split < last_idx \<and> cp < clz (fc XOR codes ! unat new_split)")
      case True
      then have "unat split' = unat split + unat step" by (simp add: split'_def unew)
      with t step2 have "unat split + unat step0 \<le> t" by linarith
      with t "1.prems"(6) show ?thesis by blast
    next
      case False
      then have eq: "split' = split" by (auto simp add: split'_def)
      from False lt have "\<not> cp < clz (fc XOR codes ! (unat split + unat step))"
        using t eq unew by auto
      moreover have "unat first \<le> unat split + unat step" using "1.prems"(8) by simp
      ultimately show ?thesis
        using "1.prems"(7) t eq by blast
    qed
  qed
  show ?case
  proof (cases "step > 1")
    case True
    have sl: "unat step \<le> unat last_idx" using step_le "1.prems"(4) by simp
    have eq: "split' =
      (if new_split < last_idx
       then let split_code = codes ! unat new_split; split_prefix = clz (fc XOR split_code)
            in if cp < split_prefix then new_split else split
       else split)"
      by (simp add: split'_def Let_def)
    have IH: "unat split' \<le> unat (findSplit_loop codes fc cp last_idx split' step)
      \<and> unat (findSplit_loop codes fc cp last_idx split' step) < unat last_idx
      \<and> cp < clz (fc XOR codes ! unat (findSplit_loop codes fc cp last_idx split' step))
      \<and> (\<forall>t. unat (findSplit_loop codes fc cp last_idx split' step) < t \<and> t < unat last_idx
          \<longrightarrow> \<not> cp < clz (fc XOR codes ! t))"
      by (rule "1.IH" [OF step_def new_split_def eq True "1.prems"(1) s'1(2) step_pos sl s'1(3)
            s'2 "1.prems"(7) s'1(4)])
    with True s'1(1) show ?thesis unfolding unfold by auto
  next
    case False
    then have "unat step = 1" using step_pos by (simp add: word_less_nat_alt)
    with s'2 have "\<forall>t. unat split' < t \<and> t < unat last_idx \<longrightarrow> \<not> cp < clz (fc XOR codes ! t)"
      by auto
    with False s'1 show ?thesis unfolding unfold by simp
  qed
qed


lemma leading_common_bits_refl: "leading_common_bits a a = 32"
  using leading_common_bits_ge_iff [of 32 a a] leading_common_bits_range [of a a] by simp

lemma leading_common_bits_neq:
  assumes "a \<noteq> b"
  shows "leading_common_bits a b < 32"
proof (rule ccontr)
  assume "\<not> leading_common_bits a b < 32"
  then have "int 32 \<le> leading_common_bits a b" by simp
  then have "drop_bit (32 - 32) a = drop_bit (32 - 32) b"
    using leading_common_bits_ge_iff [of 32 a b] by simp
  with assms show False by simp
qed

lemma segment_sorted_nth:
  assumes "sorted (take (Suc l - f) (drop f xs))" and "l < length xs"
    and "f \<le> a" and "a \<le> b" and "b \<le> l"
  shows "xs ! a \<le> (xs ! b :: u32)"
proof -
  let ?seg = "take (Suc l - f) (drop f xs)"
  have len: "length ?seg = Suc l - f" using assms(2) by simp
  have "?seg ! (a - f) \<le> ?seg ! (b - f)"
    using assms len by (intro sorted_nth_mono) auto
  moreover have "?seg ! (a - f) = xs ! a" "?seg ! (b - f) = xs ! b"
    using assms by simp_all
  ultimately show ?thesis by simp
qed

text \<open>
  Claim C7. For a range \<open>[first, last]\<close> with \<open>first < last\<close> of an array of codes that is
  sorted on that range (the order the per-type sorter establishes) and whose indices fit in
  31 bits (the encoding of children as \<open>index << 1\<close> assumes as much): if the codes at
  \<open>first\<close> and \<open>last\<close> are identical, \<open>findSplit\<close> returns the midpoint
  \<open>(first + last) div 2\<close>; otherwise it returns the greatest index \<open>s\<close> in
  \<open>[first, last - 1]\<close> whose code shares a strictly longer common prefix with the code at
  \<open>first\<close> than the code at \<open>last\<close> does.
\<close>

theorem findSplit_greatest_longer_prefix:
  assumes "first < last_idx" and "unat last_idx < 2 ^ 31"
    and "unat last_idx < length d_morton_codes"
    and "sorted (take (Suc (unat last_idx) - unat first) (drop (unat first) d_morton_codes))"
  shows "(d_morton_codes ! unat first = d_morton_codes ! unat last_idx \<longrightarrow>
      unat (findSplit d_morton_codes first last_idx) = (unat first + unat last_idx) div 2)
    \<and> (d_morton_codes ! unat first \<noteq> d_morton_codes ! unat last_idx \<longrightarrow>
      unat first \<le> unat (findSplit d_morton_codes first last_idx)
      \<and> unat (findSplit d_morton_codes first last_idx) \<le> unat last_idx - 1
      \<and> leading_common_bits (d_morton_codes ! unat first) (d_morton_codes ! unat last_idx)
          < leading_common_bits (d_morton_codes ! unat first)
              (d_morton_codes ! unat (findSplit d_morton_codes first last_idx))
      \<and> (\<forall>t. unat (findSplit d_morton_codes first last_idx) < t \<and> t \<le> unat last_idx - 1 \<longrightarrow>
            \<not> leading_common_bits (d_morton_codes ! unat first) (d_morton_codes ! unat last_idx)
              < leading_common_bits (d_morton_codes ! unat first) (d_morton_codes ! t)))"
proof (intro conjI impI)
  assume "d_morton_codes ! unat first = d_morton_codes ! unat last_idx"
  then have "findSplit d_morton_codes first last_idx = drop_bit 1 (first + last_idx)"
    by (simp add: findSplit_def)
  moreover have "unat first + unat last_idx < 2 ^ 32"
    using assms(1,2) by (simp add: word_less_nat_alt)
  ultimately show "unat (findSplit d_morton_codes first last_idx) = (unat first + unat last_idx) div 2"
    by (simp only: unat_shiftr1 unat_add_small)
next
  let ?fc = "d_morton_codes ! unat first" and ?lc = "d_morton_codes ! unat last_idx"
  let ?cp = "clz (?fc XOR ?lc)"
  let ?r = "findSplit_loop d_morton_codes ?fc ?cp last_idx first (last_idx - first)"
  assume ne: "?fc \<noteq> ?lc"
  then have fs: "findSplit d_morton_codes first last_idx = ?r"
    by (simp add: findSplit_def Let_def)
  have fl: "unat first < unat last_idx" using assms(1) by (simp add: word_less_nat_alt)
  have ustep: "unat (last_idx - first) = unat last_idx - unat first"
    using assms(1) by (simp add: unat_sub)
  have "clz 0 = 32"
    using clz_xor [of 0 0] leading_common_bits_refl [of 0] by simp
  then have p0: "?cp < clz (?fc XOR d_morton_codes ! unat first)"
    using leading_common_bits_neq [OF ne] by (simp add: clz_xor)
  have anti: "\<forall>t t'. t \<le> t' \<and> t' < unat last_idx \<and> ?cp < clz (?fc XOR d_morton_codes ! t')
           \<longrightarrow> unat first \<le> t \<longrightarrow> ?cp < clz (?fc XOR d_morton_codes ! t)"
  proof (intro allI impI)
    fix t t'
    assume h: "t \<le> t' \<and> t' < unat last_idx \<and> ?cp < clz (?fc XOR d_morton_codes ! t')"
      and ft: "unat first \<le> t"
    have "?fc \<le> d_morton_codes ! t" "d_morton_codes ! t \<le> d_morton_codes ! t'"
      using segment_sorted_nth [OF assms(4,3)] h ft by simp_all
    then have "leading_common_bits ?fc (d_morton_codes ! t') \<le> leading_common_bits ?fc (d_morton_codes ! t)"
      by (rule leading_common_bits_between)
    with h show "?cp < clz (?fc XOR d_morton_codes ! t)"
      by (simp add: clz_xor)
  qed
  have res: "unat first \<le> unat ?r \<and> unat ?r < unat last_idx
      \<and> ?cp < clz (?fc XOR d_morton_codes ! unat ?r)
      \<and> (\<forall>t. unat ?r < t \<and> t < unat last_idx \<longrightarrow> \<not> ?cp < clz (?fc XOR d_morton_codes ! t))"
    by (rule findSplit_loop_greatest [OF assms(2) fl _ _ p0 _ anti])
      (use fl ustep in auto)
  show "unat first \<le> unat (findSplit d_morton_codes first last_idx)"
    using res fs by simp
  show "unat (findSplit d_morton_codes first last_idx) \<le> unat last_idx - 1"
    unfolding fs using res by linarith
  show "leading_common_bits ?fc ?lc
      < leading_common_bits ?fc (d_morton_codes ! unat (findSplit d_morton_codes first last_idx))"
    using res fs by (simp add: clz_xor)
  show "\<forall>t. unat (findSplit d_morton_codes first last_idx) < t \<and> t \<le> unat last_idx - 1 \<longrightarrow>
      \<not> leading_common_bits ?fc ?lc < leading_common_bits ?fc (d_morton_codes ! t)"
  proof (intro allI impI)
    fix t assume "unat (findSplit d_morton_codes first last_idx) < t \<and> t \<le> unat last_idx - 1"
    then have "unat ?r < t \<and> t < unat last_idx" using fs fl by auto
    with res show "\<not> leading_common_bits ?fc ?lc < leading_common_bits ?fc (d_morton_codes ! t)"
      by (simp add: clz_xor)
  qed
qed

theorem findSplit_greatest_longer_prefix_witness:
  "(0 :: u32) < 3 \<and> unat (3 :: u32) < 2 ^ 31 \<and> unat (3 :: u32) < length [0, 1, 2, 4 :: u32]
   \<and> sorted (take (Suc (unat (3 :: u32)) - unat (0 :: u32)) (drop (unat (0 :: u32)) [0, 1, 2, 4 :: u32]))
   \<and> [0, 1, 2, 4 :: u32] ! unat (0 :: u32) \<noteq> [0, 1, 2, 4] ! unat (3 :: u32)
   \<and> findSplit [0, 1, 2, 4] 0 3 = 2
   \<and> leading_common_bits ([0, 1, 2, 4] ! unat (0 :: u32)) ([0, 1, 2, 4] ! unat (3 :: u32))
       < leading_common_bits ([0, 1, 2, 4] ! unat (0 :: u32))
           ([0, 1, 2, 4] ! unat (findSplit [0, 1, 2, 4] 0 3))"
proof -
  have h: "(0 :: u32) < 3" "unat (3 :: u32) < 2 ^ 31" "unat (3 :: u32) < length [0, 1, 2, 4 :: u32]"
    "sorted (take (Suc (unat (3 :: u32)) - unat (0 :: u32)) (drop (unat (0 :: u32)) [0, 1, 2, 4 :: u32]))"
    by simp_all
  have n: "[0, 1, 2, 4 :: u32] ! unat (0 :: u32) \<noteq> [0, 1, 2, 4] ! unat (3 :: u32)"
    by simp
  have v: "findSplit [0, 1, 2, 4] 0 3 = 2"
    by code_simp
  show ?thesis
    using h n v findSplit_greatest_longer_prefix [OF h] by blast
qed

section \<open>Properties of the tree traverser\<close>

lemma for_each_invariant:
  assumes "for_each body xs st = Some st'" and "P st"
    and "\<And>i s s'. P s \<Longrightarrow> body i s = Some s' \<Longrightarrow> P s'"
  shows "P st'"
  using assms(1,2)
proof (induction xs arbitrary: st)
  case Nil
  then show ?case by simp
next
  case (Cons i xs)
  then show ?case
    by (auto split: option.splits intro: assms(3))
qed

lemma for_each_returns:
  assumes "\<And>i s. i \<in> set xs \<Longrightarrow> body i s \<noteq> None"
  shows "for_each body xs st \<noteq> None"
  using assms
proof (induction xs arbitrary: st)
  case Nil
  then show ?case by simp
next
  case (Cons i xs)
  then obtain s' where "body i st = Some s'" by force
  with Cons show ?case by simp
qed

lemma visit_particle_invariant:
  assumes "\<And>rc dr2 j bj s. P s \<Longrightarrow>
      P (visit_candidate (filter_body args) regs (d_Nmax args (unat (type_i regs))) rc dr2 j bj s)"
    and "P st"
  shows "P (visit_particle args regs rc pos node cur_p st)"
  using assms by (simp add: visit_particle_def Let_def)

lemma scan_leaf_invariant:
  assumes "\<And>rc pos node cur_p s. P s \<Longrightarrow> P (visit_particle args regs rc pos node cur_p s)"
    and "P st"
  shows "P (scan_leaf args regs rc pos node np st)"
proof -
  have "P (fold (\<lambda>cur_p. visit_particle args regs rc pos node (word_of_nat cur_p)) ps st)" for ps
    using assms(2)
    by (induction ps arbitrary: st) (simp_all add: assms(1))
  then show ?thesis by (simp add: scan_leaf_def)
qed

lemma search_nodes_invariant:
  assumes "\<And>rc pos node cur_p s. P s \<Longrightarrow> P (visit_particle args regs rc pos node cur_p s)"
    and "P st"
    and "search_nodes fuel args regs r_cut rc pos tree cur st = Some st'"
  shows "P st'"
  using assms(2,3)
proof (induction fuel arbitrary: cur st)
  case 0
  then show ?case by simp
next
  case (Suc fuel)
  show ?case
  proof (cases "cur < num_nodes tree")
    case False
    with Suc.prems show ?thesis by simp
  next
    case True
    let ?node = "node_head tree + cur"
    let ?upper = "d_aabb_node_bounds args (unat (2 * ?node))"
    let ?lower = "d_aabb_node_bounds args (unat (2 * ?node + 1))"
    let ?ov = "aabb_overlap
        \<lparr>x3 = fl args (x3 pos + r_cut), y3 = fl args (y3 pos + r_cut),
         z3 = fl args (z3 pos + r_cut)\<rparr>
        \<lparr>x3 = fl args (x3 pos - r_cut), y3 = fl args (y3 pos - r_cut),
         z3 = fl args (z3 pos - r_cut)\<rparr> ?upper ?lower"
    show ?thesis
    proof (cases ?ov)
      case ov: True
      have "search_nodes fuel args regs r_cut rc pos tree (cur + 1)
          (scan_leaf args regs rc pos ?node (w4 ?lower) st) = Some st'"
        using Suc.prems(2) True ov by (simp add: Let_def)
      moreover have "P (scan_leaf args regs rc pos ?node (w4 ?lower) st)"
        using assms(1) Suc.prems(1) by (rule scan_leaf_invariant)
      ultimately show ?thesis by (rule Suc.IH [rotated])
    next
      case nov: False
      have "search_nodes fuel args regs r_cut rc pos tree (cur + w4 ?upper + 1) st = Some st'"
        using Suc.prems(2) True nov by (simp add: Let_def)
      with Suc.prems(1) show ?thesis by (rule Suc.IH)
    qed
  qed
qed

lemma traverse_neighbors_particle_invariant:
  assumes "\<And>rc pos node cur_p s. P s \<Longrightarrow>
      P (visit_particle args (load_regs args idx) rc pos node cur_p s)"
    and "P (d_nlist mem, 0)"
    and "traverse_neighbors fuel args mem idx = Some st'"
  shows "P st'"
proof -
  let ?regs = "load_regs args idx"
  have img: "P s'" if "P s" and "search_image fuel args ?regs r_cut tree im s = Some s'"
    for r_cut tree im s s'
    using that search_nodes_invariant [of P, OF assms(1)]
    by (simp add: search_image_def Let_def)
  have per_type: "P s'" if "P s" and "search_type fuel args ?regs t s = Some s'" for t s s'
    using that(2) unfolding search_type_def Let_def
    by (rule for_each_invariant) (use that(1) img in auto)
  show ?thesis
    using assms(3) unfolding traverse_neighbors_def
    by (rule for_each_invariant) (use assms(2) per_type in auto)
qed

lemma traverse_neighbors_invariant:
  assumes "\<And>rc dr2 j bj s. P s \<Longrightarrow>
      P (visit_candidate (filter_body args) (load_regs args idx)
           (d_Nmax args (unat (type_i (load_regs args idx)))) rc dr2 j bj s)"
    and "P (d_nlist mem, 0)"
    and "traverse_neighbors fuel args mem idx = Some st'"
  shows "P st'"
  using _ assms(2,3)
proof (rule traverse_neighbors_particle_invariant)
  fix rc pos node cur_p s
  assume "P s"
  with assms(1) show "P (visit_particle args (load_regs args idx) rc pos node cur_p s)"
    by (rule visit_particle_invariant)
qed

lemma search_nodes_returns:
  assumes "skips_in_range args tree"
    and "unat (num_nodes tree) - unat cur < fuel"
  shows "search_nodes fuel args regs r_cut rc pos tree cur st \<noteq> None"
  using assms(2)
proof (induction fuel arbitrary: cur st)
  case 0
  then show ?case by simp
next
  case (Suc fuel)
  show ?case
  proof (cases "cur < num_nodes tree")
    case False
    then show ?thesis by simp
  next
    case True
    then have lt: "unat cur < unat (num_nodes tree)" by (simp add: word_less_nat_alt)
    let ?skip = "w4 (d_aabb_node_bounds args (unat (2 * (node_head tree + cur))))"
    have "unat cur + unat ?skip + 1 < 2 ^ 32"
      using assms(1) lt unfolding skips_in_range_def
      by (auto dest!: bspec [where x = "unat cur"])
    then have a: "unat (cur + ?skip + 1) = unat cur + unat ?skip + 1"
      by (simp add: unat_word_ariths)
    have "unat (num_nodes tree) < 2 ^ 32" using unsigned_less [of "num_nodes tree"] by simp
    then have "unat cur + 1 < 2 ^ 32" using lt by simp
    then have b: "unat (cur + 1) = unat cur + 1"
      by (simp add: unat_word_ariths)
    have "unat (num_nodes tree) - unat (cur + ?skip + 1) < fuel"
      "unat (num_nodes tree) - unat (cur + 1) < fuel"
      using Suc.prems lt a b by linarith+
    then show ?thesis
      using True Suc.IH by (simp add: Let_def)
  qed
qed

lemma traverse_neighbors_returns:
  assumes "\<forall>t < unat (ntypes args). skips_in_range args (d_aabb_trees args t)
      \<and> unat (num_nodes (d_aabb_trees args t)) < fuel"
  shows "traverse_neighbors fuel args mem idx \<noteq> None"
  unfolding traverse_neighbors_def
proof (rule for_each_returns)
  fix t s
  assume "t \<in> set [0..<unat (ntypes args)]"
  then have t: "skips_in_range args (d_aabb_trees args t)"
    "unat (num_nodes (d_aabb_trees args t)) < fuel"
    using assms by simp_all
  show "search_type fuel args (load_regs args idx) t s \<noteq> None"
    unfolding search_type_def Let_def
  proof (rule for_each_returns)
    fix im s'
    have "unat (num_nodes (d_aabb_trees args t)) - unat (0 :: u32) < fuel" using t(2) by simp
    then show "search_image fuel args (load_regs args idx)
        (fl args (d_r_cut args (unat (typpair_idx args (type_i (load_regs args idx)) (word_of_nat t)))
          + r_buff args)) (d_aabb_trees args t) im s' \<noteq> None"
      unfolding search_image_def Let_def
      by (rule search_nodes_returns [OF t(1)])
  qed
qed

lemma candidate_excluded_iff:
  "candidate_excluded fb pidx bi j bj = (j = pidx \<or> (fb \<and> bi \<noteq> 0xffffffff \<and> bi = bj))"
  by (auto simp add: candidate_excluded_def Let_def)

lemma visit_candidate_cases:
  "visit_candidate fb regs Nmax_i rc dr2 j bj (nl, n) =
    (if j \<noteq> my_pidx regs \<and> \<not> (fb \<and> body_i regs \<noteq> 0xffffffff \<and> body_i regs = bj) \<and> dr2 \<le> rc
     then ((if n < Nmax_i then nl(unat (nlist_head_i regs + n) := j) else nl), n + 1)
     else (nl, n))"
  by (auto simp add: visit_candidate_def candidate_excluded_iff record_neighbor_def)

lemma capacity_preserved:
  assumes "\<forall>slot. nl slot \<noteq> nl0 slot \<longrightarrow> (\<exists>k. k < Nmax_i \<and> slot = unat (nlist_head_i regs + k))"
    and "visit_candidate fb regs Nmax_i rc dr2 j bj (nl, n) = (nl', n')"
  shows "\<forall>slot. nl' slot \<noteq> nl0 slot \<longrightarrow> (\<exists>k. k < Nmax_i \<and> slot = unat (nlist_head_i regs + k))"
  using assms by (auto simp add: visit_candidate_cases split: if_splits)

lemma word_less_succ:
  fixes k n :: u32
  assumes "k < n + 1"
  shows "k < n \<or> k = n"
proof -
  have "unat (n + 1) \<le> unat n + 1" by (simp add: unat_word_ariths)
  with assms have "unat k < unat n + 1" by (simp add: word_less_nat_alt)
  then have "unat k < unat n \<or> unat k = unat n" by linarith
  then show ?thesis by (auto simp add: word_less_nat_alt word_unat_eq_iff)
qed

lemma no_self_preserved:
  assumes "\<forall>k. k < n \<and> k < Nmax_i \<longrightarrow> nl (unat (nlist_head_i regs + k)) \<noteq> my_pidx regs"
    and "visit_candidate fb regs Nmax_i rc dr2 j bj (nl, n) = (nl', n')"
  shows "\<forall>k. k < n' \<and> k < Nmax_i \<longrightarrow> nl' (unat (nlist_head_i regs + k)) \<noteq> my_pidx regs"
proof (cases "j \<noteq> my_pidx regs \<and> \<not> (fb \<and> body_i regs \<noteq> 0xffffffff \<and> body_i regs = bj) \<and> dr2 \<le> rc")
  case False
  then have "nl' = nl" "n' = n"
    using assms(2) by (auto simp add: visit_candidate_cases split: if_splits)
  with assms(1) show ?thesis by simp
next
  case True
  then have eq: "nl' = (if n < Nmax_i then nl(unat (nlist_head_i regs + n) := j) else nl)"
    "n' = n + 1"
    using assms(2) by (simp_all add: visit_candidate_cases)
  show ?thesis
  proof (intro allI impI)
    fix k assume k: "k < n' \<and> k < Nmax_i"
    then consider "k < n" | "k = n" using word_less_succ [of k n] eq(2) by auto
    then show "nl' (unat (nlist_head_i regs + k)) \<noteq> my_pidx regs"
    proof cases
      case 1
      then have "nlist_head_i regs + k \<noteq> nlist_head_i regs + n" by simp
      then have "unat (nlist_head_i regs + k) \<noteq> unat (nlist_head_i regs + n)"
        by (simp add: word_unat_eq_iff)
      with 1 k assms(1) show ?thesis by (simp add: eq(1))
    next
      case 2
      with k True show ?thesis by (simp add: eq(1))
    qed
  qed
qed

text \<open>
  Claim C1, as stated, restricts the self test to the primary periodic image. The kernel's
  test has no such restriction: in the second image of the small system, which is not the
  primary one, particle 0 meets itself within the cutoff; the rule as worded does not
  exclude the candidate, the kernel does and leaves the count at 0.
\<close>

theorem self_excluded_outside_primary_image_counterexample:
  "d_image_list two_particles 1 \<noteq> \<lparr>x3 = 0, y3 = 0, z3 = 0\<rparr>
   \<and> w4 (d_leaf_xyzf two_particles 0) = my_pidx (load_regs two_particles 0)
   \<and> \<not> excluded_as_claimed (d_image_list two_particles 1 = \<lparr>x3 = 0, y3 = 0, z3 = 0\<rparr>)
        (filter_body two_particles) (my_pidx (load_regs two_particles 0))
        (body_i (load_regs two_particles 0)) (w4 (d_leaf_xyzf two_particles 0))
        (y2 (d_leaf_db two_particles 0))
   \<and> candidate_excluded (filter_body two_particles) (my_pidx (load_regs two_particles 0))
        (body_i (load_regs two_particles 0)) (w4 (d_leaf_xyzf two_particles 0))
        (y2 (d_leaf_db two_particles 0))
   \<and> snd (visit_particle two_particles (load_regs two_particles 0) 1 (d_image_list two_particles 1)
        0 0 (d_nlist empty_mem, 0)) = 0"
  by code_simp

lemma visit_particle_cases:
  "visit_particle args regs r_cutsq_i pos_i_image node cur_p (nl, n) =
    (let slot = unat (d_aabb_node_head_idx args (unat node) + cur_p);
         cur_xyzf = d_leaf_xyzf args slot;
         j = w4 cur_xyzf
     in if candidate_excluded (filter_body args) (my_pidx regs) (body_i regs) j
             (y2 (d_leaf_db args slot))
        then (nl, n)
        else if candidate_dr2 args pos_i_image cur_xyzf \<le> r_cutsq_i
        then ((if n < d_Nmax args (unat (type_i regs))
               then nl(unat (nlist_head_i regs + n) := j) else nl), n + 1)
        else (nl, n))"
  by (simp add: visit_particle_def visit_candidate_def record_neighbor_def Let_def)

lemma stored_not_excluded_preserved:
  assumes "\<forall>k. k < n \<and> k < d_Nmax args (unat (type_i regs)) \<longrightarrow>
      (\<exists>s. nl (unat (nlist_head_i regs + k)) = w4 (d_leaf_xyzf args s)
         \<and> \<not> candidate_excluded (filter_body args) (my_pidx regs) (body_i regs)
               (w4 (d_leaf_xyzf args s)) (y2 (d_leaf_db args s)))"
    and "visit_particle args regs rc pos node cur_p (nl, n) = (nl', n')"
  shows "\<forall>k. k < n' \<and> k < d_Nmax args (unat (type_i regs)) \<longrightarrow>
      (\<exists>s. nl' (unat (nlist_head_i regs + k)) = w4 (d_leaf_xyzf args s)
         \<and> \<not> candidate_excluded (filter_body args) (my_pidx regs) (body_i regs)
               (w4 (d_leaf_xyzf args s)) (y2 (d_leaf_db args s)))"
proof -
  let ?slot = "unat (d_aabb_node_head_idx args (unat node) + cur_p)"
  let ?j = "w4 (d_leaf_xyzf args ?slot)"
  let ?ex = "candidate_excluded (filter_body args) (my_pidx regs) (body_i regs) ?j
      (y2 (d_leaf_db args ?slot))"
  let ?in = "candidate_dr2 args pos (d_leaf_xyzf args ?slot) \<le> rc"
  let ?Nmax = "d_Nmax args (unat (type_i regs))"
  show ?thesis
  proof (cases "\<not> ?ex \<and> ?in")
    case False
    then have "nl' = nl" "n' = n"
      using assms(2) by (auto simp add: visit_particle_cases Let_def split: if_splits)
    with assms(1) show ?thesis by simp
  next
    case True
    then have eq: "nl' = (if n < ?Nmax then nl(unat (nlist_head_i regs + n) := ?j) else nl)"
      "n' = n + 1"
      using assms(2) by (simp_all add: visit_particle_cases Let_def)
    show ?thesis
    proof (intro allI impI)
      fix k assume k: "k < n' \<and> k < ?Nmax"
      then consider "k < n" | "k = n" using word_less_succ [of k n] eq(2) by auto
      then show "\<exists>s. nl' (unat (nlist_head_i regs + k)) = w4 (d_leaf_xyzf args s)
         \<and> \<not> candidate_excluded (filter_body args) (my_pidx regs) (body_i regs)
               (w4 (d_leaf_xyzf args s)) (y2 (d_leaf_db args s))"
      proof cases
        case 1
        then have "nlist_head_i regs + k \<noteq> nlist_head_i regs + n" by simp
        then have "unat (nlist_head_i regs + k) \<noteq> unat (nlist_head_i regs + n)"
          by (simp add: word_unat_eq_iff)
        then have "nl' (unat (nlist_head_i regs + k)) = nl (unat (nlist_head_i regs + k))"
          by (simp add: eq(1))
        with 1 k assms(1) show ?thesis by simp
      next
        case 2
        with k have "nl' (unat (nlist_head_i regs + k)) = ?j" by (simp add: eq(1))
        with True show ?thesis by blast
      qed
    qed
  qed
qed

text \<open>
  Claim C1, amended. In the tree traverser a candidate \<open>j\<close> found in a leaf is excluded
  exactly when \<open>j\<close> is particle \<open>i\<close> itself, whatever the periodic image, or, when body
  filtering is enabled and the body id of \<open>i\<close> is not the sentinel, when both particles carry
  the same body id. An excluded candidate changes neither the neighbor list nor the count;
  a candidate that is not excluded and lies within the cutoff is counted, and stored while
  the count is below the capacity; a candidate outside the cutoff changes nothing. This
  holds for the test as such and for the candidate the kernel reads from the leaf arrays, at
  any image position and with the squared distance as the kernel computes it. When the
  thread has returned, every occupied slot of the neighbor list of \<open>i\<close> holds the index of
  a leaf candidate that is not excluded.
\<close>

theorem candidate_exclusion_rule:
  assumes "\<forall>t < unat (ntypes args). skips_in_range args (d_aabb_trees args t)
      \<and> unat (num_nodes (d_aabb_trees args t)) < fuel"
    and "idx < N args"
  shows "candidate_excluded (filter_body args) (my_pidx regs) (body_i regs) j body_j =
      (j = my_pidx regs
       \<or> (filter_body args \<and> body_i regs \<noteq> 0xffffffff \<and> body_i regs = body_j))
   \<and> visit_candidate (filter_body args) regs Nmax_i r_cutsq_i dr2 j body_j (nl, n) =
      (if j = my_pidx regs
          \<or> (filter_body args \<and> body_i regs \<noteq> 0xffffffff \<and> body_i regs = body_j)
       then (nl, n)
       else if dr2 \<le> r_cutsq_i
       then ((if n < Nmax_i then nl(unat (nlist_head_i regs + n) := j) else nl), n + 1)
       else (nl, n))
   \<and> visit_particle args regs r_cutsq_i pos_i_image node cur_p (nl, n) =
      (let slot = unat (d_aabb_node_head_idx args (unat node) + cur_p);
           cur_xyzf = d_leaf_xyzf args slot
       in if w4 cur_xyzf = my_pidx regs
             \<or> (filter_body args \<and> body_i regs \<noteq> 0xffffffff
                 \<and> body_i regs = y2 (d_leaf_db args slot))
          then (nl, n)
          else if candidate_dr2 args pos_i_image cur_xyzf \<le> r_cutsq_i
          then ((if n < d_Nmax args (unat (type_i regs))
                 then nl(unat (nlist_head_i regs + n) := w4 cur_xyzf) else nl), n + 1)
          else (nl, n))
   \<and> (\<exists>out. gpu_nlist_traverse_tree_kernel fuel args mem idx = Some out
        \<and> (\<forall>k. k < d_n_neigh out (unat (my_pidx (load_regs args idx)))
               \<and> k < d_Nmax args (unat (type_i (load_regs args idx))) \<longrightarrow>
             (\<exists>s. d_nlist out (unat (nlist_head_i (load_regs args idx) + k))
                     = w4 (d_leaf_xyzf args s)
                \<and> \<not> (w4 (d_leaf_xyzf args s) = my_pidx (load_regs args idx)
                      \<or> (filter_body args \<and> body_i (load_regs args idx) \<noteq> 0xffffffff
                          \<and> body_i (load_regs args idx) = y2 (d_leaf_db args s))))))"
proof (intro conjI)
  show "candidate_excluded (filter_body args) (my_pidx regs) (body_i regs) j body_j =
      (j = my_pidx regs
       \<or> (filter_body args \<and> body_i regs \<noteq> 0xffffffff \<and> body_i regs = body_j))"
    by (rule candidate_excluded_iff)
next
  show "visit_candidate (filter_body args) regs Nmax_i r_cutsq_i dr2 j body_j (nl, n) =
      (if j = my_pidx regs
          \<or> (filter_body args \<and> body_i regs \<noteq> 0xffffffff \<and> body_i regs = body_j)
       then (nl, n)
       else if dr2 \<le> r_cutsq_i
       then ((if n < Nmax_i then nl(unat (nlist_head_i regs + n) := j) else nl), n + 1)
       else (nl, n))"
    by (simp add: visit_candidate_cases)
next
  show "visit_particle args regs r_cutsq_i pos_i_image node cur_p (nl, n) =
      (let slot = unat (d_aabb_node_head_idx args (unat node) + cur_p);
           cur_xyzf = d_leaf_xyzf args slot
       in if w4 cur_xyzf = my_pidx regs
             \<or> (filter_body args \<and> body_i regs \<noteq> 0xffffffff
                 \<and> body_i regs = y2 (d_leaf_db args slot))
          then (nl, n)
          else if candidate_dr2 args pos_i_image cur_xyzf \<le> r_cutsq_i
          then ((if n < d_Nmax args (unat (type_i regs))
                 then nl(unat (nlist_head_i regs + n) := w4 cur_xyzf) else nl), n + 1)
          else (nl, n))"
    by (simp add: visit_particle_cases candidate_excluded_iff Let_def)
next
  let ?regs = "load_regs args idx"
  let ?Nmax = "d_Nmax args (unat (type_i ?regs))"
  obtain nl' n_neigh_i where tn: "traverse_neighbors fuel args mem idx = Some (nl', n_neigh_i)"
    using traverse_neighbors_returns [OF assms(1), of mem idx] by fastforce
  let ?P = "\<lambda>st :: nlist_state. \<forall>k. k < snd st \<and> k < ?Nmax \<longrightarrow>
      (\<exists>s. fst st (unat (nlist_head_i ?regs + k)) = w4 (d_leaf_xyzf args s)
         \<and> \<not> candidate_excluded (filter_body args) (my_pidx ?regs) (body_i ?regs)
               (w4 (d_leaf_xyzf args s)) (y2 (d_leaf_db args s)))"
  have "?P (nl', n_neigh_i)"
  proof (rule traverse_neighbors_particle_invariant [where P = ?P, OF _ _ tn])
    fix rc pos node cur_p s
    assume "?P s"
    then show "?P (visit_particle args ?regs rc pos node cur_p s)"
      using stored_not_excluded_preserved [of "snd s" args ?regs "fst s" rc pos node cur_p]
      by (cases "visit_particle args ?regs rc pos node cur_p s") simp
  next
    show "?P (d_nlist mem, 0)" by simp
  qed
  then have ne: "\<forall>k. k < n_neigh_i \<and> k < ?Nmax \<longrightarrow>
      (\<exists>s. nl' (unat (nlist_head_i ?regs + k)) = w4 (d_leaf_xyzf args s)
         \<and> \<not> (w4 (d_leaf_xyzf args s) = my_pidx ?regs
               \<or> (filter_body args \<and> body_i ?regs \<noteq> 0xffffffff
                   \<and> body_i ?regs = y2 (d_leaf_db args s))))"
    by (simp add: candidate_excluded_iff)
  define out where "out =
    \<lparr>d_nlist = nl',
     d_n_neigh = (d_n_neigh mem)(unat (my_pidx ?regs) := n_neigh_i),
     d_last_updated_pos = (d_last_updated_pos mem)(unat (my_pidx ?regs) := postype_i ?regs),
     d_conditions =
       (if n_neigh_i \<ge> ?Nmax
        then (d_conditions mem)(unat (type_i ?regs) := max (d_conditions mem (unat (type_i ?regs))) n_neigh_i)
        else d_conditions mem)\<rparr>"
  have k: "gpu_nlist_traverse_tree_kernel fuel args mem idx = Some out"
    using assms(2) tn by (simp add: gpu_nlist_traverse_tree_kernel_def Let_def out_def)
  have o: "d_nlist out = nl'" "d_n_neigh out (unat (my_pidx ?regs)) = n_neigh_i"
    by (simp_all add: out_def)
  show "\<exists>out. gpu_nlist_traverse_tree_kernel fuel args mem idx = Some out
        \<and> (\<forall>k. k < d_n_neigh out (unat (my_pidx ?regs)) \<and> k < ?Nmax \<longrightarrow>
             (\<exists>s. d_nlist out (unat (nlist_head_i ?regs + k)) = w4 (d_leaf_xyzf args s)
                \<and> \<not> (w4 (d_leaf_xyzf args s) = my_pidx ?regs
                      \<or> (filter_body args \<and> body_i ?regs \<noteq> 0xffffffff
                          \<and> body_i ?regs = y2 (d_leaf_db args s)))))"
    using k ne unfolding o [symmetric] by blast
qed

theorem candidate_exclusion_rule_witness:
  "skips_in_range two_particles (d_aabb_trees two_particles 0)
   \<and> unat (num_nodes (d_aabb_trees two_particles 0)) < 2
   \<and> (0 :: u32) < N two_particles
   \<and> fst (visit_particle two_particles (load_regs two_particles 0) 1 (d_image_list two_particles 1)
        0 0 (d_nlist empty_mem, 0)) 0 = 9
   \<and> snd (visit_particle two_particles (load_regs two_particles 0) 1 (d_image_list two_particles 1)
        0 0 (d_nlist empty_mem, 0)) = 0
   \<and> fst (visit_particle two_particles (load_regs two_particles 0) 1 (d_image_list two_particles 1)
        0 1 (d_nlist empty_mem, 0)) 0 = 1
   \<and> snd (visit_particle two_particles (load_regs two_particles 0) 1 (d_image_list two_particles 1)
        0 1 (d_nlist empty_mem, 0)) = 1
   \<and> map_option (\<lambda>out. (d_n_neigh out 0, d_nlist out 0))
        (gpu_nlist_traverse_tree_kernel 2 two_particles empty_mem 0) = Some (2, 1)
   \<and> w4 (d_leaf_xyzf two_particles 1) = 1
   \<and> \<not> candidate_excluded (filter_body two_particles) (my_pidx (load_regs two_particles 0))
        (body_i (load_regs two_particles 0)) 1 (y2 (d_leaf_db two_particles 1))"
proof -
  have s: "skips_in_range two_particles (d_aabb_trees two_particles 0)"
    "unat (num_nodes (d_aabb_trees two_particles 0)) < 2"
    by (simp_all add: two_particles_def skips_in_range_def)
  have "unat (ntypes two_particles) = 1" by (simp add: two_particles_def)
  with s have h1: "\<forall>t < unat (ntypes two_particles).
      skips_in_range two_particles (d_aabb_trees two_particles t)
      \<and> unat (num_nodes (d_aabb_trees two_particles t)) < 2"
    by simp
  have h2: "(0 :: u32) < N two_particles" by (simp add: two_particles_def)
  have v: "fst (visit_particle two_particles (load_regs two_particles 0) 1 (d_image_list two_particles 1)
        0 0 (d_nlist empty_mem, 0)) 0 = 9"
    "snd (visit_particle two_particles (load_regs two_particles 0) 1 (d_image_list two_particles 1)
        0 0 (d_nlist empty_mem, 0)) = 0"
    "fst (visit_particle two_particles (load_regs two_particles 0) 1 (d_image_list two_particles 1)
        0 1 (d_nlist empty_mem, 0)) 0 = 1"
    "snd (visit_particle two_particles (load_regs two_particles 0) 1 (d_image_list two_particles 1)
        0 1 (d_nlist empty_mem, 0)) = 1"
    "map_option (\<lambda>out. (d_n_neigh out 0, d_nlist out 0))
        (gpu_nlist_traverse_tree_kernel 2 two_particles empty_mem 0) = Some (2, 1)"
    "w4 (d_leaf_xyzf two_particles 1) = 1"
    "\<not> candidate_excluded (filter_body two_particles) (my_pidx (load_regs two_particles 0))
        (body_i (load_regs two_particles 0)) 1 (y2 (d_leaf_db two_particles 1))"
    by code_simp+
  show ?thesis
    using s h2 v candidate_exclusion_rule [OF h1 h2] by blast
qed

text \<open>
  Claim C2. A within-cutoff neighbor is written to the slot of particle \<open>i\<close> only while the
  running count is below \<open>Nmax\<close> of its type, and the count is incremented in either case.
  For skip values in range and enough fuel the thread returns; it changes the neighbor list
  only at slots below the capacity, writes the neighbor count and the last updated position
  of the particle whatever the count, and when the count reaches the capacity it raises the
  overflow counter of the type to the maximum of its old value and the count, which is at
  least the count when the count exceeds the capacity.
\<close>

theorem overflow_signal:
  assumes "\<forall>t < unat (ntypes args). skips_in_range args (d_aabb_trees args t)
      \<and> unat (num_nodes (d_aabb_trees args t)) < fuel"
    and "idx < N args"
  shows "(\<not> candidate_excluded (filter_body args) (my_pidx regs) (body_i regs) j body_j
        \<and> dr2 \<le> r_cutsq_i \<longrightarrow>
      visit_candidate (filter_body args) regs Nmax_i r_cutsq_i dr2 j body_j (nl, n) =
        ((if n < Nmax_i then nl(unat (nlist_head_i regs + n) := j) else nl), n + 1))
    \<and> (\<exists>nl' n_neigh_i out.
        traverse_neighbors fuel args mem idx = Some (nl', n_neigh_i)
        \<and> gpu_nlist_traverse_tree_kernel fuel args mem idx = Some out
        \<and> d_nlist out = nl'
        \<and> (\<forall>slot. d_nlist out slot \<noteq> d_nlist mem slot \<longrightarrow>
              (\<exists>k. k < d_Nmax args (unat (type_i (load_regs args idx)))
                 \<and> slot = unat (nlist_head_i (load_regs args idx) + k)))
        \<and> d_n_neigh out (unat (my_pidx (load_regs args idx))) = n_neigh_i
        \<and> d_last_updated_pos out (unat (my_pidx (load_regs args idx)))
            = postype_i (load_regs args idx)
        \<and> (d_Nmax args (unat (type_i (load_regs args idx))) \<le> n_neigh_i \<longrightarrow>
              d_conditions out (unat (type_i (load_regs args idx)))
                = max (d_conditions mem (unat (type_i (load_regs args idx)))) n_neigh_i)
        \<and> (d_Nmax args (unat (type_i (load_regs args idx))) < n_neigh_i \<longrightarrow>
              n_neigh_i \<le> d_conditions out (unat (type_i (load_regs args idx)))))"
proof (intro conjI)
  show "\<not> candidate_excluded (filter_body args) (my_pidx regs) (body_i regs) j body_j
        \<and> dr2 \<le> r_cutsq_i \<longrightarrow>
      visit_candidate (filter_body args) regs Nmax_i r_cutsq_i dr2 j body_j (nl, n) =
        ((if n < Nmax_i then nl(unat (nlist_head_i regs + n) := j) else nl), n + 1)"
    by (simp add: visit_candidate_def record_neighbor_def)
next
  let ?regs = "load_regs args idx"
  let ?Nmax = "d_Nmax args (unat (type_i ?regs))"
  obtain nl' n_neigh_i where tn: "traverse_neighbors fuel args mem idx = Some (nl', n_neigh_i)"
    using traverse_neighbors_returns [OF assms(1), of mem idx] by fastforce
  let ?P = "\<lambda>st :: nlist_state. \<forall>slot. fst st slot \<noteq> d_nlist mem slot \<longrightarrow>
      (\<exists>k. k < ?Nmax \<and> slot = unat (nlist_head_i ?regs + k))"
  have "?P (nl', n_neigh_i)"
  proof (rule traverse_neighbors_invariant [where P = ?P, OF _ _ tn])
    fix rc dr2 j bj s
    assume "?P s"
    then show "?P (visit_candidate (filter_body args) ?regs ?Nmax rc dr2 j bj s)"
      using capacity_preserved [of "fst s" "d_nlist mem" ?Nmax ?regs "filter_body args" rc dr2 j bj "snd s"]
      by (cases "visit_candidate (filter_body args) ?regs ?Nmax rc dr2 j bj s") simp
  next
    show "?P (d_nlist mem, 0)" by simp
  qed
  then have cap: "\<forall>slot. nl' slot \<noteq> d_nlist mem slot \<longrightarrow>
      (\<exists>k. k < ?Nmax \<and> slot = unat (nlist_head_i ?regs + k))" by simp
  define out where "out =
    \<lparr>d_nlist = nl',
     d_n_neigh = (d_n_neigh mem)(unat (my_pidx ?regs) := n_neigh_i),
     d_last_updated_pos = (d_last_updated_pos mem)(unat (my_pidx ?regs) := postype_i ?regs),
     d_conditions =
       (if n_neigh_i \<ge> ?Nmax
        then (d_conditions mem)(unat (type_i ?regs) := max (d_conditions mem (unat (type_i ?regs))) n_neigh_i)
        else d_conditions mem)\<rparr>"
  have k: "gpu_nlist_traverse_tree_kernel fuel args mem idx = Some out"
    using assms(2) tn by (simp add: gpu_nlist_traverse_tree_kernel_def Let_def out_def)
  have "d_nlist out = nl'"
    "d_n_neigh out (unat (my_pidx ?regs)) = n_neigh_i"
    "d_last_updated_pos out (unat (my_pidx ?regs)) = postype_i ?regs"
    "?Nmax \<le> n_neigh_i \<longrightarrow>
       d_conditions out (unat (type_i ?regs)) = max (d_conditions mem (unat (type_i ?regs))) n_neigh_i"
    "?Nmax < n_neigh_i \<longrightarrow> n_neigh_i \<le> d_conditions out (unat (type_i ?regs))"
    by (auto simp add: out_def)
  with tn k cap show "\<exists>nl' n_neigh_i out.
        traverse_neighbors fuel args mem idx = Some (nl', n_neigh_i)
        \<and> gpu_nlist_traverse_tree_kernel fuel args mem idx = Some out
        \<and> d_nlist out = nl'
        \<and> (\<forall>slot. d_nlist out slot \<noteq> d_nlist mem slot \<longrightarrow>
              (\<exists>k. k < ?Nmax \<and> slot = unat (nlist_head_i ?regs + k)))
        \<and> d_n_neigh out (unat (my_pidx ?regs)) = n_neigh_i
        \<and> d_last_updated_pos out (unat (my_pidx ?regs)) = postype_i ?regs
        \<and> (?Nmax \<le> n_neigh_i \<longrightarrow>
              d_conditions out (unat (type_i ?regs))
                = max (d_conditions mem (unat (type_i ?regs))) n_neigh_i)
        \<and> (?Nmax < n_neigh_i \<longrightarrow> n_neigh_i \<le> d_conditions out (unat (type_i ?regs)))"
    by auto
qed

theorem overflow_signal_witness:
  "skips_in_range two_particles (d_aabb_trees two_particles 0)
   \<and> unat (num_nodes (d_aabb_trees two_particles 0)) < 2
   \<and> (0 :: u32) < N two_particles
   \<and> d_Nmax two_particles 0 = 1
   \<and> map_option (\<lambda>out. (d_n_neigh out 0, d_conditions out 0, d_nlist out 0, d_nlist out 1))
        (gpu_nlist_traverse_tree_kernel 2 two_particles empty_mem 0) = Some (2, 2, 1, 9)"
proof -
  have s: "skips_in_range two_particles (d_aabb_trees two_particles 0)"
    "unat (num_nodes (d_aabb_trees two_particles 0)) < 2"
    by (simp_all add: two_particles_def skips_in_range_def)
  have "unat (ntypes two_particles) = 1" by (simp add: two_particles_def)
  with s have h1: "\<forall>t < unat (ntypes two_particles).
      skips_in_range two_particles (d_aabb_trees two_particles t)
      \<and> unat (num_nodes (d_aabb_trees two_particles t)) < 2"
    by simp
  have h2: "(0 :: u32) < N two_particles" by (simp add: two_particles_def)
  have m: "d_Nmax two_particles 0 = 1" by (simp add: two_particles_def)
  have v: "map_option (\<lambda>out. (d_n_neigh out 0, d_conditions out 0, d_nlist out 0, d_nlist out 1))
        (gpu_nlist_traverse_tree_kernel 2 two_particles empty_mem 0) = Some (2, 2, 1, 9)"
    by code_simp
  show ?thesis
    using s h2 m v overflow_signal [OF h1 h2] by blast
qed

text \<open>
  Claim C10. A leaf candidate whose index equals the index of particle \<open>i\<close> leaves the state
  of the thread unchanged, for every image position, cutoff and node, that is for every
  periodic image and every tree; and when the thread has returned, no occupied slot of the
  neighbor list of \<open>i\<close> holds \<open>i\<close>.
\<close>

theorem self_never_own_neighbor:
  assumes "\<forall>t < unat (ntypes args). skips_in_range args (d_aabb_trees args t)
      \<and> unat (num_nodes (d_aabb_trees args t)) < fuel"
    and "idx < N args"
  shows "(\<forall>r_cutsq_i pos_i_image node cur_p st.
        w4 (d_leaf_xyzf args (unat (d_aabb_node_head_idx args (unat node) + cur_p)))
          = my_pidx (load_regs args idx) \<longrightarrow>
        visit_particle args (load_regs args idx) r_cutsq_i pos_i_image node cur_p st = st)
    \<and> (\<exists>out. gpu_nlist_traverse_tree_kernel fuel args mem idx = Some out
        \<and> (\<forall>k. k < d_n_neigh out (unat (my_pidx (load_regs args idx)))
               \<and> k < d_Nmax args (unat (type_i (load_regs args idx))) \<longrightarrow>
             d_nlist out (unat (nlist_head_i (load_regs args idx) + k))
               \<noteq> my_pidx (load_regs args idx)))"
proof (intro conjI)
  show "\<forall>r_cutsq_i pos_i_image node cur_p st.
        w4 (d_leaf_xyzf args (unat (d_aabb_node_head_idx args (unat node) + cur_p)))
          = my_pidx (load_regs args idx) \<longrightarrow>
        visit_particle args (load_regs args idx) r_cutsq_i pos_i_image node cur_p st = st"
    by (simp add: visit_particle_def visit_candidate_def candidate_excluded_iff Let_def)
next
  let ?regs = "load_regs args idx"
  let ?Nmax = "d_Nmax args (unat (type_i ?regs))"
  obtain nl' n_neigh_i where tn: "traverse_neighbors fuel args mem idx = Some (nl', n_neigh_i)"
    using traverse_neighbors_returns [OF assms(1), of mem idx] by fastforce
  let ?P = "\<lambda>st :: nlist_state. \<forall>k. k < snd st \<and> k < ?Nmax \<longrightarrow>
      fst st (unat (nlist_head_i ?regs + k)) \<noteq> my_pidx ?regs"
  have "?P (nl', n_neigh_i)"
  proof (rule traverse_neighbors_invariant [where P = ?P, OF _ _ tn])
    fix rc dr2 j bj s
    assume "?P s"
    then show "?P (visit_candidate (filter_body args) ?regs ?Nmax rc dr2 j bj s)"
      using no_self_preserved [of "snd s" ?Nmax "fst s" ?regs "filter_body args" rc dr2 j bj]
      by (cases "visit_candidate (filter_body args) ?regs ?Nmax rc dr2 j bj s") simp
  next
    show "?P (d_nlist mem, 0)" by simp
  qed
  then have ns: "\<forall>k. k < n_neigh_i \<and> k < ?Nmax \<longrightarrow>
      nl' (unat (nlist_head_i ?regs + k)) \<noteq> my_pidx ?regs" by simp
  define out where "out =
    \<lparr>d_nlist = nl',
     d_n_neigh = (d_n_neigh mem)(unat (my_pidx ?regs) := n_neigh_i),
     d_last_updated_pos = (d_last_updated_pos mem)(unat (my_pidx ?regs) := postype_i ?regs),
     d_conditions =
       (if n_neigh_i \<ge> ?Nmax
        then (d_conditions mem)(unat (type_i ?regs) := max (d_conditions mem (unat (type_i ?regs))) n_neigh_i)
        else d_conditions mem)\<rparr>"
  have k: "gpu_nlist_traverse_tree_kernel fuel args mem idx = Some out"
    using assms(2) tn by (simp add: gpu_nlist_traverse_tree_kernel_def Let_def out_def)
  have "d_nlist out = nl'" "d_n_neigh out (unat (my_pidx ?regs)) = n_neigh_i"
    by (simp_all add: out_def)
  with k ns show "\<exists>out. gpu_nlist_traverse_tree_kernel fuel args mem idx = Some out
        \<and> (\<forall>k. k < d_n_neigh out (unat (my_pidx ?regs)) \<and> k < ?Nmax \<longrightarrow>
             d_nlist out (unat (nlist_head_i ?regs + k)) \<noteq> my_pidx ?regs)"
    by auto
qed

theorem self_never_own_neighbor_witness:
  "skips_in_range two_particles (d_aabb_trees two_particles 0)
   \<and> unat (num_nodes (d_aabb_trees two_particles 0)) < 2
   \<and> (0 :: u32) < N two_particles
   \<and> my_pidx (load_regs two_particles 0) = 0
   \<and> w4 (d_leaf_xyzf two_particles (unat (d_aabb_node_head_idx two_particles (unat (0 :: u32)) + 0))) = 0
   \<and> visit_particle two_particles (load_regs two_particles 0) 1 (d_image_list two_particles 1) 0 0
        (d_nlist empty_mem, 0) = (d_nlist empty_mem, 0)
   \<and> map_option (\<lambda>out. (d_n_neigh out 0, d_nlist out 0))
        (gpu_nlist_traverse_tree_kernel 2 two_particles empty_mem 0) = Some (2, 1)"
proof -
  have s: "skips_in_range two_particles (d_aabb_trees two_particles 0)"
    "unat (num_nodes (d_aabb_trees two_particles 0)) < 2"
    by (simp_all add: two_particles_def skips_in_range_def)
  have "unat (ntypes two_particles) = 1" by (simp add: two_particles_def)
  with s have h1: "\<forall>t < unat (ntypes two_particles).
      skips_in_range two_particles (d_aabb_trees two_particles t)
      \<and> unat (num_nodes (d_aabb_trees two_particles t)) < 2"
    by simp
  have h2: "(0 :: u32) < N two_particles" by (simp add: two_particles_def)
  have p: "my_pidx (load_regs two_particles 0) = 0"
    "w4 (d_leaf_xyzf two_particles (unat (d_aabb_node_head_idx two_particles (unat (0 :: u32)) + 0))) = 0"
    by (simp_all add: two_particles_def load_regs_def)
  have v: "map_option (\<lambda>out. (d_n_neigh out 0, d_nlist out 0))
        (gpu_nlist_traverse_tree_kernel 2 two_particles empty_mem 0) = Some (2, 1)"
    by code_simp
  have "visit_particle two_particles (load_regs two_particles 0) 1 (d_image_list two_particles 1) 0 0
        (d_nlist empty_mem, 0) = (d_nlist empty_mem, 0)"
    using self_never_own_neighbor [OF h1 h2] p by simp
  with s h2 p v show ?thesis by blast
qed

section \<open>Properties of the Morton bins, the hierarchy generator and the propagator\<close>

lemma morton_bin_in_domain:
  assumes "0 \<le> fa" and "fa < 1.00001"
  shows "morton_bin periodic_axis fa =
      (if fa < 1 then word_of_int \<lfloor>fa * 1024\<rfloor> else if periodic_axis then 0 else 1024)"
    and "fa < 1 \<Longrightarrow> morton_bin periodic_axis fa < 1024"
proof -
  have lo: "0 \<le> \<lfloor>fa * 1024\<rfloor>" using assms(1) by simp
  have hi: "\<lfloor>fa * 1024\<rfloor> \<le> 1024"
  proof -
    have "fa * 1024 < 1025" using assms(2) by simp
    then have "\<lfloor>fa * 1024\<rfloor> < 1025" by (simp add: floor_less_iff)
    then show ?thesis by linarith
  qed
  have small: "\<lfloor>fa * 1024\<rfloor> < 1024" if "fa < 1"
    using that by (simp add: floor_less_iff)
  have big: "\<lfloor>fa * 1024\<rfloor> = 1024" if "\<not> fa < 1"
  proof -
    have "1024 \<le> fa * 1024" using that by simp
    then have "1024 \<le> \<lfloor>fa * 1024\<rfloor>" by (simp add: le_floor_iff)
    with hi show ?thesis by linarith
  qed
  have w: "(word_of_int \<lfloor>fa * 1024\<rfloor> :: u32) < 1024" if "fa < 1"
  proof -
    have "uint (word_of_int \<lfloor>fa * 1024\<rfloor> :: u32) = \<lfloor>fa * 1024\<rfloor>"
      using lo small [OF that] by (simp add: uint_word_of_int take_bit_int_eq_self)
    then show ?thesis using small [OF that] by (simp add: word_less_def)
  qed
  show "morton_bin periodic_axis fa =
      (if fa < 1 then word_of_int \<lfloor>fa * 1024\<rfloor> else if periodic_axis then 0 else 1024)"
    using w big by (auto simp add: morton_bin_def MORTON_CODE_N_BINS_def Let_def)
  show "morton_bin periodic_axis fa < 1024" if "fa < 1"
    using w [OF that] that by (auto simp add: morton_bin_def MORTON_CODE_N_BINS_def Let_def)
qed

lemma dropped_iff_out_of_domain:
  assumes "idx < mc_N args"
  shows "gpu_nlist_morton_codes_kernel args idx = None
    \<longleftrightarrow> out_of_domain (makeFraction args
          \<lparr>x3 = x4 (mc_d_pos args (unat idx)), y3 = y4 (mc_d_pos args (unat idx)),
           z3 = z4 (mc_d_pos args (unat idx))\<rparr>)"
  using assms by (auto simp add: gpu_nlist_morton_codes_kernel_def Let_def)

text \<open>
  Claim C3. A particle is dropped exactly when its fractional coordinate leaves
  \<open>[0, 1.00001)\<close> on some axis (\<open>dropped_iff_out_of_domain\<close>), and a coordinate below 1 falls
  into one of the bins 0 to 1023 (\<open>morton_bin_in_domain\<close>). At the upper boundary the bin is
  1024: a periodic axis wraps it to 0, a non-periodic axis keeps 1024, which is not one of
  the 1024 bins and not bin 1023. Its expansion is bit 30, so on the x axis the code wraps
  to that of bin 0 and on the y axis the code has bit 31 set.
\<close>

theorem nonperiodic_upper_boundary_bin:
  "\<not> out_of_domain \<lparr>x3 = 1, y3 = 0, z3 = 0\<rparr>
   \<and> morton_bin True 1 = 0
   \<and> morton_bin False 1 = 1024
   \<and> expandBits 1024 = 0x40000000
   \<and> gpu_nlist_morton_codes_kernel (particle_at (False, False, False) \<lparr>x3 = 1, y3 = 0, z3 = 0\<rparr>) 0
       = Some \<lparr>leaf_idx = 0, code_written = 0, particle_written = 0\<rparr>
   \<and> gpu_nlist_morton_codes_kernel (particle_at (False, False, False) \<lparr>x3 = 0, y3 = 1, z3 = 0\<rparr>) 0
       = Some \<lparr>leaf_idx = 0, code_written = 0x80000000, particle_written = 0\<rparr>"
  by (simp add: gpu_nlist_morton_codes_kernel_def particle_at_def out_of_domain_def morton_bin_def
      morton_code_def expandBits_def MORTON_CODE_N_BINS_def)

lemma empty_type_counts:
  assumes "0 < PARTICLES_PER_LEAF"
  shows "leaves_of_type PARTICLES_PER_LEAF 0 = 0"
    and "internal_nodes_of_type PARTICLES_PER_LEAF 0 = 0xFFFFFFFF"
proof -
  have "PARTICLES_PER_LEAF \<noteq> 0" using assms by auto
  then have "unat (PARTICLES_PER_LEAF - 1) = unat PARTICLES_PER_LEAF - 1"
    by (rule unat_minus_one)
  moreover have "0 < unat PARTICLES_PER_LEAF"
    using \<open>PARTICLES_PER_LEAF \<noteq> 0\<close> by (simp add: unat_gt_0)
  ultimately have "unat ((PARTICLES_PER_LEAF - 1) div PARTICLES_PER_LEAF) = 0"
    by (simp add: unat_div)
  then have "(PARTICLES_PER_LEAF - 1) div PARTICLES_PER_LEAF = 0"
    by (simp add: unat_eq_0)
  then show "leaves_of_type PARTICLES_PER_LEAF 0 = 0"
    "internal_nodes_of_type PARTICLES_PER_LEAF 0 = 0xFFFFFFFF"
    by (simp_all add: leaves_of_type_def internal_nodes_of_type_def)
qed

text \<open>
  Claim C9. A type without particles has no leaves, but the number of internal nodes the
  generator computes for it wraps around to \<open>2 ^ 32 - 1\<close>: with an empty first type, thread 0
  is assigned to that type, with a leaf range that ends at \<open>2 ^ 32 - 1\<close>. For a type with
  between 1 and \<^verbatim>\<open>PARTICLES_PER_LEAF\<close> particles the count is 0 and the walk passes on to the
  next type.
\<close>

theorem empty_type_internal_count_underflows:
  "leaves_of_type 4 0 = 0
   \<and> internal_nodes_of_type 4 0 = 0xFFFFFFFF
   \<and> internal_nodes_of_type 4 3 = 0
   \<and> walk_types 4 [0, 9] 2 0 0 0 = \<lparr>origin = 0, end_idx = 0xFFFFFFFF, node_idx = 0, seg_type = 0\<rparr>
   \<and> walk_types 4 [9, 3] 2 1 0 0 = \<lparr>origin = 0, end_idx = 2, node_idx = 1, seg_type = 0\<rparr>"
  by code_simp

text \<open>
  Claim C4. Three leaves of one type, the first two with the same code: the generator
  leaves leaf 0 without a parent, gives internal node 1 the children leaf 1 and internal
  node 2, which does not exist among the two internal nodes, and stores a parent for it.
\<close>

theorem coincident_codes_break_tree:
  "show_hierarchy 4 (gpu_nlist_gen_hierarchy 40 4 [0, 0, 1] [12] 1 3) =
    Some ([None, Some 1, Some 0, None],
          [Some 0, Some 0, Some 1, None],
          [Some (2, 5), Some (3, 4), None, None])"
  by code_simp

lemma four_leaves_generated:
  "show_hierarchy 4 (gpu_nlist_gen_hierarchy 40 4 [0, 1, 2, 4] [16] 1 4) = show_hierarchy 4 (Some four_leaves)"
  by code_simp

lemma two_types_generated:
  "show_hierarchy 4 (gpu_nlist_gen_hierarchy 40 1 [0, 1, 0, 1] [2, 2] 2 4) = show_hierarchy 4 (Some two_types)"
  by code_simp

text \<open>
  Claim C5. On the hierarchy of four leaves, whether the threads run in the order 0, 1, 2, 3
  or 3, 2, 1, 0, the walk that merges internal node 1 stops there, because twice the index
  of node 1 equals the index of its parent: the locks of nodes 0 and 2 end at 1 and their
  boxes are never written. With two types the root of the second type is visited a third
  time.
\<close>

theorem bubble_walk_stops_early:
  "show_bubble 3 (gpu_nlist_bubble_aabbs 10 four_leaves 4 leaf_points [0, 1, 2, 3])
      = Inr ([1, 2, 1], [0, 1, 0])
   \<and> show_bubble 3 (gpu_nlist_bubble_aabbs 10 four_leaves 4 leaf_points [3, 2, 1, 0])
      = Inr ([1, 2, 1], [0, 1, 0])
   \<and> show_bubble 2 (gpu_nlist_bubble_aabbs 10 two_types 4 leaf_points [0, 1, 2, 3])
      = Inr ([2, 3], [1, 1])"
  by code_simp

end
